theory Spec2Isabelle
  imports Main
begin

section \<open>JavaScript values\<close>

text \<open>
  The values \<^verbatim>\<open>JSON.parse\<close> and \<^verbatim>\<open>express.json()\<close> hand to the routes, with
  \<^verbatim>\<open>undefined\<close> added for a property that is absent. A number is carried as the text
  \<^verbatim>\<open>String\<close> prints for it (\<^verbatim>\<open>0\<close> for zero), which is all the routes ever do with one.
  An object lists its own properties.
\<close>

datatype js =
    JUndefined
  | JNull
  | JBool bool
  | JNum string
  | JStr string
  | JArr "js list"
  | JObj "(string \<times> js) list"

text \<open>Truthiness, as \<^verbatim>\<open>!x\<close> and \<^verbatim>\<open>x || y\<close> read it.\<close>

fun truthy :: "js \<Rightarrow> bool" where
  "truthy JUndefined = False"
| "truthy JNull = False"
| "truthy (JBool b) = b"
| "truthy (JNum s) = (s \<noteq> ''0'')"
| "truthy (JStr s) = (s \<noteq> [])"
| "truthy (JArr xs) = True"
| "truthy (JObj kvs) = True"

fun join_comma :: "string list \<Rightarrow> string" where
  "join_comma [] = []"
| "join_comma [s] = s"
| "join_comma (s # t # ss) = s @ '','' @ join_comma (t # ss)"

text \<open>
  \<^verbatim>\<open>String(x)\<close>. \<open>None\<close> is the TypeError of an object whose own \<^verbatim>\<open>toString\<close>
  property (never callable in parsed JSON) hides the inherited method. An array joins its
  elements with commas, printing \<^verbatim>\<open>null\<close> and \<^verbatim>\<open>undefined\<close> as the empty string.
\<close>

fun js_String :: "js \<Rightarrow> string option" where
  "js_String JUndefined = Some ''undefined''"
| "js_String JNull = Some ''null''"
| "js_String (JBool b) = Some (if b then ''true'' else ''false'')"
| "js_String (JNum s) = Some s"
| "js_String (JStr s) = Some s"
| "js_String (JArr xs) =
     map_option join_comma
       (those (map (\<lambda>x. if x = JNull \<or> x = JUndefined then Some [] else js_String x) xs))"
| "js_String (JObj kvs) =
     (if ''toString'' \<in> set (map fst kvs) then None else Some ''[object Object]'')"

text \<open>
  \<^verbatim>\<open>p.categoryName\<close> and \<^verbatim>\<open>p.words\<close> on a value that is neither \<^verbatim>\<open>null\<close> nor
  \<^verbatim>\<open>undefined\<close>: the own property of an object, and \<^verbatim>\<open>undefined\<close> on everything else
  (no prototype defines either name).
\<close>

definition own_prop :: "js \<Rightarrow> string \<Rightarrow> js" where
  "own_prop p k =
     (case p of
        JObj kvs \<Rightarrow> (case map_of kvs k of Some v \<Rightarrow> v | None \<Rightarrow> JUndefined)
      | _ \<Rightarrow> JUndefined)"

text \<open>The decimal text of a non-negative integer, as a template literal prints it.\<close>

function string_of_nat :: "nat \<Rightarrow> string" where
  "string_of_nat n =
     (if n < 10 then [''0123456789'' ! n]
      else string_of_nat (n div 10) @ [''0123456789'' ! (n mod 10)])"
  by pat_completeness auto
termination
  by (relation "measure id") auto

declare string_of_nat.simps [simp del]

section \<open>Reading the \<^verbatim>\<open>limit\<close> query parameter\<close>

definition isWhiteSpace :: "char \<Rightarrow> bool" where
  "isWhiteSpace c = (of_char c \<in> {9, 10, 11, 12, 13, 32 :: nat})"

definition isDigit :: "char \<Rightarrow> bool" where
  "isDigit c = (48 \<le> (of_char c :: nat) \<and> (of_char c :: nat) \<le> 57)"

definition digit_value :: "char \<Rightarrow> nat" where
  "digit_value c = of_char c - 48"

text \<open>
  \<^verbatim>\<open>parseInt(req.query.limit, 10)\<close>: leading white space is skipped, one sign is read,
  then the longest run of decimal digits; no digit gives NaN, here \<open>None\<close>. A missing
  parameter is \<^verbatim>\<open>undefined\<close>, whose text has no digit. White space is the ASCII part of
  what JavaScript skips.
\<close>

definition parseInt :: "string option \<Rightarrow> int option" where
  "parseInt q =
     (case q of
        None \<Rightarrow> None
      | Some s \<Rightarrow>
          (let t = dropWhile isWhiteSpace s;
               neg = (t \<noteq> [] \<and> hd t = CHR ''-'');
               u = (if t \<noteq> [] \<and> (hd t = CHR ''-'' \<or> hd t = CHR ''+'') then tl t else t);
               ds = takeWhile isDigit u
           in if ds = [] then None
              else Some ((if neg then - 1 else 1) *
                         int (foldl (\<lambda>a c. 10 * a + digit_value c) 0 ds))))"

text \<open>
  \<^verbatim>\<open>let limit = parseInt(req.query.limit, 10);
  if (isNaN(limit) || limit < 1 || limit > 1000) limit = 100;\<close>
\<close>

definition limit_of :: "string option \<Rightarrow> nat" where
  "limit_of q =
     (case parseInt q of
        None \<Rightarrow> 100
      | Some limit \<Rightarrow> if limit < 1 \<or> limit > 1000 then 100 else nat limit)"

section \<open>Records and the collection\<close>

text \<open>
  A category as the routes build it. \<open>ai\<close> is the tag the generators attach; a
  document that has no such field is \<open>None\<close>. A stored document is a category under
  the \<^verbatim>\<open>_id\<close> the driver gave it.
\<close>

record cat =
  categoryName :: js
  words :: "string list"
  createdAt :: int
  ai :: "string option"

type_synonym doc = "nat \<times> cat"

text \<open>
  The \<^verbatim>\<open>word_class\<close> collection of a reachable server: its documents in insertion
  order, whether the unique index on \<^verbatim>\<open>categoryName\<close> exists, the validator the
  collection was created with (\<^verbatim>\<open>db/validators/word_class.json\<close>, a parameter here),
  and the next \<^verbatim>\<open>_id\<close>.
\<close>

record collection =
  docs :: "doc list"
  unique_index :: bool
  validator :: "cat \<Rightarrow> bool"
  next_id :: nat

definition countDocuments :: "collection \<Rightarrow> nat" where
  "countDocuments c = length (docs c)"

text \<open>\<^verbatim>\<open>collection.find({}).sort({ createdAt: -1 }).limit(k).toArray()\<close>\<close>

definition find_recent :: "collection \<Rightarrow> nat \<Rightarrow> doc list" where
  "find_recent c k = take k (sort_key (\<lambda>d. - createdAt (snd d)) (docs c))"

text \<open>
  The write error the server raises for a document, as its \<^verbatim>\<open>err.code\<close>: 121 when the
  validator refuses it, 11000 when the unique index holds its \<^verbatim>\<open>categoryName\<close> already.
\<close>

definition write_error :: "collection \<Rightarrow> cat \<Rightarrow> nat option" where
  "write_error c d =
     (if \<not> validator c d then Some 121
      else if unique_index c \<and> categoryName d \<in> set (map (categoryName \<circ> snd) (docs c))
      then Some 11000
      else None)"

definition insertOne :: "cat \<Rightarrow> collection \<Rightarrow> nat + nat \<times> collection" where
  "insertOne d c =
     (case write_error c d of
        Some code \<Rightarrow> Inl code
      | None \<Rightarrow>
          Inr (next_id c,
               c\<lparr>docs := docs c @ [(next_id c, d)], next_id := Suc (next_id c)\<rparr>))"

text \<open>
  \<^verbatim>\<open>insertMany(batch, { ordered: false })\<close> with its rejection caught, as both call
  sites do: every document is tried, one the server refuses is skipped. The result is the
  collection and the number of documents inserted.
\<close>

fun insertMany :: "cat list \<Rightarrow> collection \<Rightarrow> collection \<times> nat" where
  "insertMany [] c = (c, 0)"
| "insertMany (d # ds) c =
     (case insertOne d c of
        Inl code \<Rightarrow> insertMany ds c
      | Inr (i, c1) \<Rightarrow> (let (c2, k) = insertMany ds c1 in (c2, Suc k)))"

text \<open>\<^verbatim>\<open>deleteMany({ _id: { $in: ids } })\<close>\<close>

definition deleteMany :: "nat list \<Rightarrow> collection \<Rightarrow> collection" where
  "deleteMany ids c = c\<lparr>docs := filter (\<lambda>d. fst d \<notin> set ids) (docs c)\<rparr>"

text \<open>
  The server's \<^verbatim>\<open>$sample\<close> stage: \<open>k\<close> documents, or all of them when there are fewer,
  none twice, picked by the server's own randomness \<open>srv\<close> (its \<open>p\<close>-th draw chooses among
  the documents still left).
\<close>

fun sample :: "(nat \<Rightarrow> nat) \<Rightarrow> nat \<Rightarrow> nat \<Rightarrow> doc list \<Rightarrow> doc list" where
  "sample srv p 0 ds = []"
| "sample srv p (Suc k) ds =
     (if ds = [] then []
      else (let i = srv p mod length ds
            in ds ! i # sample srv (Suc p) k (take i ds @ drop (Suc i) ds)))"

text \<open>
  \<^verbatim>\<open>createIndex({ categoryName: 1 }, { unique: true })\<close>: nothing to do when the index
  exists, error 11000 when two documents share a name, the index otherwise.
\<close>

definition createIndex :: "collection \<Rightarrow> nat + collection" where
  "createIndex c =
     (if unique_index c \<or> distinct (map (categoryName \<circ> snd) (docs c))
      then Inr (c\<lparr>unique_index := True\<rparr>)
      else Inl 11000)"

section \<open>The fallback generator\<close>

text \<open>
  \<^verbatim>\<open>Math.random()\<close> is a stream of draws \<open>g\<close>; the \<open>k\<close>-th draw stands for the fraction
  \<open>(g k mod 10000) / 10000\<close> of the unit interval. Every use in the source floors a
  multiple of the draw or compares it with \<^verbatim>\<open>0.1\<close>.
\<close>

definition floor_random :: "(nat \<Rightarrow> nat) \<Rightarrow> nat \<Rightarrow> nat \<Rightarrow> nat" where
  "floor_random g k m = (g k mod 10000) * m div 10000"

definition random_below_tenth :: "(nat \<Rightarrow> nat) \<Rightarrow> nat \<Rightarrow> bool" where
  "random_below_tenth g k = (g k mod 10000 < 1000)"

definition adjectives :: "string list" where
  "adjectives = [''blue'', ''green'', ''golden'', ''ancient'', ''modern'', ''silent'', ''loud'',
     ''quick'', ''slow'', ''bright'', ''dark'', ''tiny'', ''giant'']"

definition nouns :: "string list" where
  "nouns = [''garden'', ''river'', ''market'', ''song'', ''journey'', ''castle'', ''cafe'',
     ''street'', ''plate'', ''device'', ''machine'', ''festival'', ''language'', ''flavor'']"

definition wordsPool :: "string list" where
  "wordsPool = [''apple'', ''stone'', ''river'', ''cloud'', ''light'', ''sound'', ''dance'',
     ''wind'', ''fire'', ''earth'', ''ocean'', ''mountain'', ''bird'', ''leaf'', ''root'',
     ''spark'', ''tone'', ''glass'', ''bridge'', ''path'', ''seed'', ''pulse'', ''orbit'',
     ''note'', ''frame'']"

text \<open>
  \<^verbatim>\<open>Array.from(new Set(words))\<close>: a set keeps the first occurrence of each word, in
  insertion order.
\<close>

definition array_from_set :: "string list \<Rightarrow> string list" where
  "array_from_set ws = fold (\<lambda>w seen. if w \<in> set seen then seen else seen @ [w]) ws []"

text \<open>
  The inner loop, \<open>j\<close> pushes from draw \<open>k\<close> on: a pool word, then a draw that decides
  whether a third draw appends \<^verbatim>\<open>_\<close> and a number below 100. It returns the words
  pushed and the next draw.
\<close>

fun draw_words :: "(nat \<Rightarrow> nat) \<Rightarrow> nat \<Rightarrow> nat \<Rightarrow> string list \<times> nat" where
  "draw_words g k 0 = ([], k)"
| "draw_words g k (Suc j) =
     (let w = wordsPool ! floor_random g k (length wordsPool);
          (suffix, k1) =
            (if random_below_tenth g (k + 1)
             then (''_'' @ string_of_nat (floor_random g (k + 2) 100), k + 3)
             else ([], k + 2));
          (ws, k2) = draw_words g k1 j
      in ((w @ suffix) # ws, k2))"

text \<open>
  The outer loop at index \<open>i\<close> with \<open>r\<close> rounds to go. \<open>clk i\<close> is the clock that
  \<^verbatim>\<open>new Date()\<close> reads for record \<open>i\<close>.
\<close>

fun fallback_loop ::
  "(nat \<Rightarrow> nat) \<Rightarrow> (nat \<Rightarrow> int) \<Rightarrow> nat \<Rightarrow> nat \<Rightarrow> nat \<Rightarrow> cat list" where
  "fallback_loop g clk i 0 k = []"
| "fallback_loop g clk i (Suc r) k =
     (let catName =
            adjectives ! (i mod length adjectives) @ '' '' @
            nouns ! (i mod length nouns) @ '' '' @
            string_of_nat (floor_random g k 10000);
          wordsCount = 5 + i mod 16;
          (ws, k1) = draw_words g (k + 1) wordsCount
      in \<lparr>categoryName = JStr catName, words = take 20 (array_from_set ws),
           createdAt = clk i, ai = Some ''No-ai-fallback''\<rparr>
         # fallback_loop g clk (i + 1) r k1)"

definition fallbackGenerate :: "nat \<Rightarrow> (nat \<Rightarrow> nat) \<Rightarrow> (nat \<Rightarrow> int) \<Rightarrow> cat list" where
  "fallbackGenerate n g clk = fallback_loop g clk 0 n 0"

section \<open>The provider chain\<close>

text \<open>
  What one provider attempt meets before \<^verbatim>\<open>parsed.map\<close>: a step up to the reply throws
  (\<^verbatim>\<open>require\<close>, the SDK, the network); the reply text is \<^verbatim>\<open>undefined\<close> or empty; the
  JSON text taken from the reply does not parse; or it parses to a value. For a reply
  \<^verbatim>\<open>[]\<close> that value is \<open>JArr []\<close>.
\<close>

datatype reply = Throws | No_text | Unparseable | Parsed js

text \<open>
  \<^verbatim>\<open>p => ({ categoryName: String(p.categoryName),
  words: (p.words||[]).slice(0,20).map(String), createdAt: new Date(), ai: tag })\<close>.
  \<open>None\<close> is a TypeError: reading a property of \<^verbatim>\<open>null\<close>, \<^verbatim>\<open>String\<close> failing, or a
  truthy \<^verbatim>\<open>p.words\<close> that is not an array (no \<^verbatim>\<open>slice\<close>, or no \<^verbatim>\<open>map\<close> on its result).
\<close>

definition normalize_item :: "string \<Rightarrow> int \<Rightarrow> js \<Rightarrow> cat option" where
  "normalize_item tag now p =
     (if p = JNull \<or> p = JUndefined then None
      else
        (case js_String (own_prop p ''categoryName'') of
           None \<Rightarrow> None
         | Some name \<Rightarrow>
             (case (if truthy (own_prop p ''words'') then own_prop p ''words'' else JArr []) of
                JArr ws \<Rightarrow>
                  (case those (map js_String (take 20 ws)) of
                     None \<Rightarrow> None
                   | Some strs \<Rightarrow>
                       Some \<lparr>categoryName = JStr name, words = strs, createdAt = now,
                             ai = Some tag\<rparr>)
              | _ \<Rightarrow> None)))"

text \<open>\<^verbatim>\<open>parsed.map(p => ...)\<close>: a TypeError unless \<^verbatim>\<open>parsed\<close> is an array.\<close>

definition normalize :: "string \<Rightarrow> (nat \<Rightarrow> int) \<Rightarrow> js \<Rightarrow> cat list option" where
  "normalize tag clk parsed =
     (case parsed of
        JArr ps \<Rightarrow> those (map (\<lambda>(i, p). normalize_item tag (clk i) p) (enumerate 0 ps))
      | _ \<Rightarrow> None)"

text \<open>
  One \<^verbatim>\<open>try { ... } catch (e) { console.warn(...) }\<close> block: the batch it returns, if it
  returns, and what it logs. An empty reply text skips the \<^verbatim>\<open>if (text)\<close> body and logs
  nothing.
\<close>

definition provider_attempt ::
  "string \<Rightarrow> string \<Rightarrow> (nat \<Rightarrow> int) \<Rightarrow> reply \<Rightarrow> cat list option \<times> string list" where
  "provider_attempt tag warning clk r =
     (case r of
        Throws \<Rightarrow> (None, [warning])
      | No_text \<Rightarrow> (None, [])
      | Unparseable \<Rightarrow> (None, [warning])
      | Parsed v \<Rightarrow>
          (case normalize tag clk v of
             None \<Rightarrow> (None, [warning])
           | Some batch \<Rightarrow> (Some batch, [])))"

text \<open>\<^verbatim>\<open>process.env\<close>: a key is set when it is defined and not empty.\<close>

record env =
  GEMINI_API_KEY :: "string option"
  MISTRAL_API_KEY :: "string option"

definition key_set :: "string option \<Rightarrow> bool" where
  "key_set k = (case k of None \<Rightarrow> False | Some s \<Rightarrow> s \<noteq> [])"

text \<open>What one call of \<^verbatim>\<open>generateCategories\<close> meets outside the program.\<close>

record gen_io =
  gemini :: reply
  mistral :: reply
  rand :: "nat \<Rightarrow> nat"
  clock :: "nat \<Rightarrow> int"

text \<open>The batch returned and the warnings logged.\<close>

definition generateCategories :: "env \<Rightarrow> gen_io \<Rightarrow> nat \<Rightarrow> cat list \<times> string list" where
  "generateCategories e io n =
     (let (r1, log1) =
            (if key_set (GEMINI_API_KEY e)
             then provider_attempt ''gemini'' ''Gemini generation failed:'' (clock io) (gemini io)
             else (None, []))
      in case r1 of
           Some batch \<Rightarrow> (batch, log1)
         | None \<Rightarrow>
             (let (r2, log2) =
                    (if key_set (MISTRAL_API_KEY e)
                     then provider_attempt ''mistral'' ''Mistral generation failed:''
                            (clock io) (mistral io)
                     else (None, []))
              in case r2 of
                   Some batch \<Rightarrow> (batch, log1 @ log2)
                 | None \<Rightarrow> (fallbackGenerate n (rand io) (clock io), log1 @ log2)))"

section \<open>The routes\<close>

datatype response =
    Status200 "doc list"
  | Status201 nat
  | Status400
  | Status409
  | Status500
  | Status503

definition oneDayMs :: int where
  "oneDayMs = 24 * 60 * 60 * 1000"

text \<open>\<^verbatim>\<open>latest[0]?.createdAt || null\<close>, \<^verbatim>\<open>latest\<close> being the newest document.\<close>

definition latest_createdAt :: "collection \<Rightarrow> int option" where
  "latest_createdAt c = (case find_recent c 1 of [] \<Rightarrow> None | d # ds \<Rightarrow> Some (createdAt (snd d)))"

text \<open>The writes a request performs, in order; an insert carries its batch and how many
  documents of it the server took.\<close>

datatype db_write =
    Prune_delete "nat list"
  | Prune_insert "cat list" nat
  | Fresh_insert "cat list" nat

text \<open>The number of documents a request inserted.\<close>

fun inserted :: "db_write list \<Rightarrow> nat" where
  "inserted [] = 0"
| "inserted (Prune_delete ids # ws) = inserted ws"
| "inserted (Prune_insert batch k # ws) = k + inserted ws"
| "inserted (Fresh_insert batch k # ws) = k + inserted ws"

text \<open>
  The body of \<^verbatim>\<open>GET /categories\<close> between reading the limit and reading the page: \<open>io1\<close>
  is what the generation of the capacity branch meets, \<open>io2\<close> that of the freshness
  branch, \<open>srv\<close> the server's randomness, \<open>now\<close> the clock at entry.
\<close>

definition ensure_fresh ::
  "env \<Rightarrow> (nat \<Rightarrow> nat) \<Rightarrow> gen_io \<Rightarrow> gen_io \<Rightarrow> int \<Rightarrow> collection \<Rightarrow> collection \<times> db_write list" where
  "ensure_fresh e srv io1 io2 now c =
     (let count = countDocuments c;
          lastCreatedAt = latest_createdAt c;
          (c1, w1) =
            (if count > 1000 then
               (let toRemove = map fst (sample srv 0 100 (docs c));
                    (ca, wa) =
                      (if toRemove \<noteq> [] then (deleteMany toRemove c, [Prune_delete toRemove])
                       else (c, []));
                    newCats = fst (generateCategories e io1 100);
                    (cb, k) = insertMany newCats ca
                in (cb, wa @ [Prune_insert newCats k]))
             else (c, []));
          (c2, w2) =
            (if (case lastCreatedAt of None \<Rightarrow> True | Some t \<Rightarrow> now - t \<ge> oneDayMs) then
               (let newCats = fst (generateCategories e io2 100);
                    (cb, k) = insertMany newCats c1
                in (cb, [Fresh_insert newCats k]))
             else (c1, []))
      in (c2, w1 @ w2))"

text \<open>
  \<^verbatim>\<open>router.get('/categories')\<close>. \<open>h\<close> is what \<^verbatim>\<open>await getCollection()\<close> gives: the
  collection, or \<open>None\<close> when the promise is rejected.
\<close>

definition get_categories ::
  "collection option \<Rightarrow> string option \<Rightarrow> env \<Rightarrow> (nat \<Rightarrow> nat) \<Rightarrow> gen_io \<Rightarrow> gen_io \<Rightarrow> int
     \<Rightarrow> response \<times> collection option" where
  "get_categories h q e srv io1 io2 now =
     (case h of
        None \<Rightarrow> (Status503, None)
      | Some c \<Rightarrow>
          (let limit = limit_of q;
               (c', ws) = ensure_fresh e srv io1 io2 now c
           in (Status200 (find_recent c' limit), Some c')))"

text \<open>
  The guard of the 400 response of \<^verbatim>\<open>router.post('/categories')\<close>:
  \<^verbatim>\<open>!categoryName || !Array.isArray(words) || words.length < 1 || words.length > 20 ||
  !words.every(w => typeof w === 'string')\<close>
\<close>

definition rejects :: "js \<Rightarrow> js \<Rightarrow> bool" where
  "rejects name list =
     (\<not> truthy name \<or>
      (case list of
         JArr ws \<Rightarrow>
           length ws < 1 \<or> length ws > 20 \<or>
           \<not> list_all (\<lambda>w. case w of JStr s \<Rightarrow> True | _ \<Rightarrow> False) ws
       | _ \<Rightarrow> True))"

text \<open>The strings of an array that passed the guard.\<close>

definition strings_of :: "js \<Rightarrow> string list" where
  "strings_of list =
     (case list of
        JArr ws \<Rightarrow> concat (map (\<lambda>w. case w of JStr s \<Rightarrow> [s] | _ \<Rightarrow> []) ws)
      | _ \<Rightarrow> [])"

text \<open>
  \<^verbatim>\<open>router.post('/categories')\<close> on the parsed body (\<^verbatim>\<open>undefined\<close> when there is none):
  \<^verbatim>\<open>const { categoryName, words } = req.body || {}\<close>, the guard, then
  \<^verbatim>\<open>insertOne({ categoryName, words, createdAt: new Date() })\<close> with error code 11000
  answered by 409 and any other by 500.
\<close>

definition post_categories ::
  "collection option \<Rightarrow> js \<Rightarrow> int \<Rightarrow> response \<times> collection option" where
  "post_categories h body now =
     (case h of
        None \<Rightarrow> (Status503, None)
      | Some c \<Rightarrow>
          (let b = (if truthy body then body else JObj []);
               categoryName = own_prop b ''categoryName'';
               words = own_prop b ''words''
           in if rejects categoryName words then (Status400, Some c)
              else
                (case insertOne
                        \<lparr>categoryName = categoryName, words = strings_of words,
                         createdAt = now, ai = None\<rparr> c of
                   Inr (i, c') \<Rightarrow> (Status201 i, Some c')
                 | Inl code \<Rightarrow> (if code = 11000 then Status409 else Status500, Some c))))"

section \<open>Lazy initialisation\<close>

text \<open>
  The body of the promise \<^verbatim>\<open>getCollection\<close> creates, on what \<^verbatim>\<open>connectToDb\<close> gives
  (\<open>None\<close> when it throws): the index is asked for, a failure to create it is logged, and
  the collection is returned either way.
\<close>

definition init_collection :: "collection option \<Rightarrow> (collection \<times> string list) option" where
  "init_collection connected =
     (case connected of
        None \<Rightarrow> None
      | Some c \<Rightarrow>
          (case createIndex c of
             Inl code \<Rightarrow> Some (c, [''Could not create unique index:''])
           | Inr c' \<Rightarrow> Some (c', [])))"

text \<open>
  The module variable \<^verbatim>\<open>collectionPromise\<close>: \<^verbatim>\<open>null\<close>, or the one promise, which is
  pending, fulfilled or rejected. \<open>init_runs\<close> counts how often the initialisation body
  was started.
\<close>

datatype promise = Pending | Fulfilled | Rejected

record module_state =
  collectionPromise :: "promise option"
  init_runs :: nat

definition module_loaded :: module_state where
  "module_loaded = \<lparr>collectionPromise = None, init_runs = 0\<rparr>"

text \<open>
  \<^verbatim>\<open>getCollection()\<close>: assigns the promise when there is none, which starts the body,
  and returns the promise held. \<open>settle ok\<close> is the body ending.
\<close>

definition getCollection :: "module_state \<Rightarrow> module_state" where
  "getCollection m =
     (if collectionPromise m = None
      then m\<lparr>collectionPromise := Some Pending, init_runs := init_runs m + 1\<rparr>
      else m)"

definition settle :: "bool \<Rightarrow> module_state \<Rightarrow> module_state" where
  "settle ok m =
     (if collectionPromise m = Some Pending
      then m\<lparr>collectionPromise := Some (if ok then Fulfilled else Rejected)\<rparr>
      else m)"

datatype event = Call | Settle bool

fun run :: "event list \<Rightarrow> module_state \<Rightarrow> module_state" where
  "run [] m = m"
| "run (Call # es) m = run es (getCollection m)"
| "run (Settle ok # es) m = run es (settle ok m)"

section \<open>Example inputs\<close>

text \<open>No provider key, providers that cannot be reached, and a collection of one
  document created at time 0.\<close>

definition no_keys :: env where
  "no_keys = \<lparr>GEMINI_API_KEY = None, MISTRAL_API_KEY = None\<rparr>"

definition offline_io :: gen_io where
  "offline_io = \<lparr>gemini = Throws, mistral = Throws, rand = (\<lambda>k. 5000), clock = (\<lambda>i. 0)\<rparr>"

definition one_doc_store :: collection where
  "one_doc_store =
     \<lparr>docs = [(0, \<lparr>categoryName = JStr ''a'', words = [''w''], createdAt = 0, ai = None\<rparr>)],
      unique_index = True, validator = (\<lambda>d. True), next_id = 1\<rparr>"

definition gemini_only :: env where
  "gemini_only = \<lparr>GEMINI_API_KEY = Some ''key'', MISTRAL_API_KEY = None\<rparr>"

definition both_keys :: env where
  "both_keys = \<lparr>GEMINI_API_KEY = Some ''key'', MISTRAL_API_KEY = Some ''key''\<rparr>"

text \<open>Further inputs: providers that fail, an empty collection, a collection holding a
  name twice and so without the index, a request, and a collection over capacity with
  the index, whose 1001 records are named \<^verbatim>\<open>o\<close>, \<^verbatim>\<open>oo\<close>, ... and were created at
  time 0, with a provider that returns 101 records named by repeating a letter.\<close>

definition unreachable_io :: gen_io where
  "unreachable_io = \<lparr>gemini = Throws, mistral = Unparseable, rand = (\<lambda>k. 5000), clock = (\<lambda>i. 0)\<rparr>"

definition empty_store :: collection where
  "empty_store = \<lparr>docs = [], unique_index = True, validator = (\<lambda>d. True), next_id = 0\<rparr>"

definition degraded_store :: collection where
  "degraded_store =
     \<lparr>docs = [(0, \<lparr>categoryName = JStr ''a'', words = [''w''], createdAt = 0, ai = None\<rparr>),
              (1, \<lparr>categoryName = JStr ''a'', words = [''v''], createdAt = 0, ai = None\<rparr>)],
      unique_index = False, validator = (\<lambda>d. True), next_id = 2\<rparr>"

definition request_a :: js where
  "request_a = JObj [(''categoryName'', JStr ''a''), (''words'', JArr [JStr ''w''])]"

definition old_doc :: "nat \<Rightarrow> cat" where
  "old_doc i =
     \<lparr>categoryName = JStr (replicate (Suc i) CHR ''o''), words = [''w''], createdAt = 0,
      ai = None\<rparr>"

definition big_store :: collection where
  "big_store =
     \<lparr>docs = map (\<lambda>i. (i, old_doc i)) [0..<1001], unique_index = True,
      validator = (\<lambda>d. True), next_id = 1001\<rparr>"

definition generous_item :: "char \<Rightarrow> nat \<Rightarrow> js" where
  "generous_item x i =
     JObj [(''categoryName'', JStr (replicate (Suc i) x)), (''words'', JArr [JStr ''pomme''])]"

definition generous_io :: "char \<Rightarrow> gen_io" where
  "generous_io x =
     \<lparr>gemini = Parsed (JArr (map (generous_item x) [0..<101])), mistral = Throws,
      rand = (\<lambda>k. 5000), clock = (\<lambda>i. 0)\<rparr>"

definition two_days :: int where
  "two_days = 2 * oneDayMs"

text \<open>Replies of one record, from each provider in turn, and an empty reply from the
  second provider after the first one failed.\<close>

definition fruits_item :: js where
  "fruits_item = JObj [(''categoryName'', JStr ''fruits''), (''words'', JArr [JStr ''pomme''])]"

definition fruits :: "string \<Rightarrow> cat" where
  "fruits tag =
     \<lparr>categoryName = JStr ''fruits'', words = [''pomme''], createdAt = 0, ai = Some tag\<rparr>"

definition gemini_fruits_io :: gen_io where
  "gemini_fruits_io =
     \<lparr>gemini = Parsed (JArr [fruits_item]), mistral = Throws, rand = (\<lambda>k. 5000),
      clock = (\<lambda>i. 0)\<rparr>"

definition mistral_fruits_io :: gen_io where
  "mistral_fruits_io =
     \<lparr>gemini = Throws, mistral = Parsed (JArr [fruits_item]), rand = (\<lambda>k. 5000),
      clock = (\<lambda>i. 0)\<rparr>"

definition mistral_empty_io :: gen_io where
  "mistral_empty_io =
     \<lparr>gemini = Throws, mistral = Parsed (JArr []), rand = (\<lambda>k. 5000), clock = (\<lambda>i. 0)\<rparr>"

section \<open>The limit of a page\<close>

lemma length_find_recent: "length (find_recent c k) \<le> k"
  by (simp add: find_recent_def)

text \<open>
  Claim C2. The limit served is the requested one when \<^verbatim>\<open>parseInt\<close> reads an
  integer from 1 to 1000, and 100 in every other case: a missing parameter, no number,
  a number below 1, and a number above 1000, which is not clamped to 1000. The limit
  served therefore always lies between 1 and 1000, and the page has at most that many
  records.
\<close>

theorem limit_defaults_outside_range:
  "1 \<le> limit_of q \<and> limit_of q \<le> 1000 \<and>
   (case parseInt q of
      None \<Rightarrow> limit_of q = 100
    | Some n \<Rightarrow> limit_of q = (if 1 \<le> n \<and> n \<le> 1000 then nat n else 100)) \<and>
   (case get_categories (Some c) q e srv io1 io2 now of
      (Status200 page, h) \<Rightarrow> length page \<le> limit_of q
    | _ \<Rightarrow> False)"
  by (auto simp: limit_of_def get_categories_def length_find_recent split: option.splits prod.splits)

theorem limit_50000_counterexample:
  "limit_of (Some ''50000'') = 100 \<and> limit_of (Some ''50000'') \<noteq> 1000"
  by (simp add: limit_of_def parseInt_def isWhiteSpace_def isDigit_def digit_value_def)

theorem limit_defaults_outside_range_witness:
  "limit_of (Some ''250'') = 250 \<and> limit_of (Some ''abc'') = 100 \<and> limit_of None = 100 \<and>
   limit_of (Some ''0'') = 100 \<and> limit_of (Some ''1001'') = 100 \<and>
   (case get_categories (Some one_doc_store) (Some ''250'') no_keys (\<lambda>k. 0) offline_io offline_io 1000 of
      (Status200 page, h) \<Rightarrow> length page \<le> 250
    | _ \<Rightarrow> False)"
proof -
  have l: "limit_of (Some ''250'') = 250"
    by (simp add: limit_of_def parseInt_def isWhiteSpace_def isDigit_def digit_value_def)
  have others: "limit_of (Some ''abc'') = 100 \<and> limit_of None = 100 \<and>
      limit_of (Some ''0'') = 100 \<and> limit_of (Some ''1001'') = 100"
    by (simp add: limit_of_def parseInt_def isWhiteSpace_def isDigit_def digit_value_def)
  show ?thesis
    using limit_defaults_outside_range
      [of "Some ''250''" one_doc_store no_keys "\<lambda>k. 0" offline_io offline_io 1000] others
    unfolding l by simp
qed

section \<open>A second request right after the first\<close>

text \<open>
  Claim C9. On a collection of at most 1000 documents whose newest document is
  less than 24 hours old at both requests, the first request writes nothing, and the
  second request, made on the collection the first one left, inserts and deletes nothing
  either.
\<close>

theorem ensure_fresh_twice_no_writes:
  assumes "countDocuments c \<le> 1000"
    and "latest_createdAt c = Some t"
    and "now1 - t < oneDayMs"
    and "now2 - t < oneDayMs"
  shows "ensure_fresh e srv io1 io2 now1 c = (c, []) \<and>
         ensure_fresh e' srv' io3 io4 now2 (fst (ensure_fresh e srv io1 io2 now1 c)) = (c, [])"
proof -
  have once: "ensure_fresh e srv io1 io2 now c = (c, [])"
    if "now - t < oneDayMs" for e srv io1 io2 now
    using that assms(1,2) by (simp add: ensure_fresh_def)
  show ?thesis
    using once [OF assms(3)] once [OF assms(4)] by simp
qed

theorem ensure_fresh_twice_no_writes_witness:
  "countDocuments one_doc_store \<le> 1000 \<and> latest_createdAt one_doc_store = Some 0 \<and>
   (1000 :: int) - 0 < oneDayMs \<and> (2000 :: int) - 0 < oneDayMs \<and>
   ensure_fresh no_keys (\<lambda>k. 0) offline_io offline_io 1000 one_doc_store = (one_doc_store, []) \<and>
   ensure_fresh no_keys (\<lambda>k. 0) offline_io offline_io 2000
     (fst (ensure_fresh no_keys (\<lambda>k. 0) offline_io offline_io 1000 one_doc_store)) = (one_doc_store, [])"
proof -
  have h1: "countDocuments one_doc_store \<le> 1000"
    by (simp add: countDocuments_def one_doc_store_def)
  have h2: "latest_createdAt one_doc_store = Some 0"
    by (simp add: latest_createdAt_def find_recent_def one_doc_store_def)
  have h3: "(1000 :: int) - 0 < oneDayMs" and h4: "(2000 :: int) - 0 < oneDayMs"
    by (simp_all add: oneDayMs_def)
  show ?thesis
    using h1 h2 h3 h4
      ensure_fresh_twice_no_writes [OF h1 h2 h3 h4, where e = no_keys and e' = no_keys
        and srv = "\<lambda>k. 0" and srv' = "\<lambda>k. 0" and ?io1.0 = offline_io and ?io2.0 = offline_io
        and ?io3.0 = offline_io and ?io4.0 = offline_io]
    by blast
qed

section \<open>Lazy initialisation is attempted once\<close>

lemma run_settled:
  "collectionPromise m = Some p \<Longrightarrow> p \<noteq> Pending \<Longrightarrow> run es m = m"
proof (induction es)
  case Nil
  then show ?case by simp
next
  case (Cons ev es)
  then show ?case
    by (cases ev) (simp_all add: getCollection_def settle_def)
qed

lemma run_started:
  "collectionPromise m \<noteq> None \<Longrightarrow>
   init_runs (run es m) = init_runs m \<and> collectionPromise (run es m) \<noteq> None"
proof (induction es arbitrary: m)
  case Nil
  then show ?case by simp
next
  case (Cons ev es)
  show ?case
  proof (cases ev)
    case Call
    with Cons show ?thesis by (simp add: getCollection_def)
  next
    case (Settle ok)
    have "collectionPromise (settle ok m) \<noteq> None" "init_runs (settle ok m) = init_runs m"
      using Cons.prems by (simp_all add: settle_def)
    with Cons.IH [of "settle ok m"] Settle show ?thesis by simp
  qed
qed

lemma run_fresh:
  "collectionPromise m = None \<Longrightarrow>
   init_runs (run es m) = init_runs m + (if Call \<in> set es then 1 else 0)"
proof (induction es arbitrary: m)
  case Nil
  then show ?case by simp
next
  case (Cons ev es)
  show ?case
  proof (cases ev)
    case Call
    have "collectionPromise (getCollection m) \<noteq> None" "init_runs (getCollection m) = init_runs m + 1"
      using Cons.prems by (simp_all add: getCollection_def)
    with run_started [of "getCollection m" es] Call show ?thesis by simp
  next
    case (Settle ok)
    have "settle ok m = m"
      using Cons.prems by (simp add: settle_def)
    with Cons.IH [OF Cons.prems] Settle show ?thesis by simp
  qed
qed

text \<open>
  Claim C5. Initialisation is single-flight and is attempted once: however calls
  of \<^verbatim>\<open>getCollection\<close> and the end of the initialisation interleave, the body is started
  by the first call only, every call gets the one promise, and a settled promise never
  changes. A rejected initialisation is therefore what every later call receives; no
  later call starts a fresh attempt.
\<close>

theorem getCollection_single_flight_no_retry:
  "init_runs (run es module_loaded) \<le> 1 \<and>
   (Call \<in> set es \<longrightarrow> init_runs (run es module_loaded) = 1) \<and>
   (collectionPromise (run es module_loaded) = Some Rejected \<longrightarrow>
      collectionPromise (run es' (run es module_loaded)) = Some Rejected \<and>
      init_runs (run es' (run es module_loaded)) = init_runs (run es module_loaded)) \<and>
   (collectionPromise (run es module_loaded) = Some Fulfilled \<longrightarrow>
      collectionPromise (run es' (run es module_loaded)) = Some Fulfilled)"
proof -
  have fresh: "collectionPromise module_loaded = None" "init_runs module_loaded = 0"
    by (simp_all add: module_loaded_def)
  have count: "init_runs (run es module_loaded) = (if Call \<in> set es then 1 else 0)"
    using run_fresh [OF fresh(1), of es] fresh(2) by simp
  have kept: "run es' (run es module_loaded) = run es module_loaded"
    if "collectionPromise (run es module_loaded) = Some p" "p \<noteq> Pending" for p
    using run_settled [OF that] .
  show ?thesis
    using count kept [of Rejected] kept [of Fulfilled] by simp
qed

theorem getCollection_retry_counterexample:
  "collectionPromise (run [Call, Settle False] module_loaded) = Some Rejected \<and>
   collectionPromise (run [Call, Settle False, Call] module_loaded) = Some Rejected \<and>
   init_runs (run [Call, Settle False, Call] module_loaded) = 1"
  by (simp add: module_loaded_def getCollection_def settle_def)

theorem getCollection_single_flight_no_retry_witness:
  "Call \<in> set [Call, Call, Settle False] \<and>
   init_runs (run [Call, Call, Settle False] module_loaded) = 1 \<and>
   collectionPromise (run [Call, Call, Settle False] module_loaded) = Some Rejected \<and>
   collectionPromise (run [Call, Call] (run [Call, Call, Settle False] module_loaded)) = Some Rejected \<and>
   init_runs (run [Call, Call] (run [Call, Call, Settle False] module_loaded)) = 1"
proof -
  have h1: "Call \<in> set [Call, Call, Settle False]" by simp
  have h2: "collectionPromise (run [Call, Call, Settle False] module_loaded) = Some Rejected"
    by (simp add: module_loaded_def getCollection_def settle_def)
  show ?thesis
    using h1 h2
      getCollection_single_flight_no_retry [of "[Call, Call, Settle False]" "[Call, Call]"]
    by simp
qed

section \<open>The records of the fallback generator\<close>

lemma fold_seen_distinct:
  "distinct seen \<Longrightarrow>
   distinct (fold (\<lambda>w seen. if w \<in> set seen then seen else seen @ [w]) ws seen)"
  by (induction ws arbitrary: seen) auto

lemma fold_seen_set:
  "set (fold (\<lambda>w seen. if w \<in> set seen then seen else seen @ [w]) ws seen) = set seen \<union> set ws"
  by (induction ws arbitrary: seen) auto

lemma fold_seen_length:
  "length (fold (\<lambda>w seen. if w \<in> set seen then seen else seen @ [w]) ws seen)
     \<le> length seen + length ws"
proof (induction ws arbitrary: seen)
  case Nil
  then show ?case by simp
next
  case (Cons w ws)
  show ?case
    using Cons.IH [of seen] Cons.IH [of "seen @ [w]"] by simp
qed

lemma distinct_array_from_set: "distinct (array_from_set ws)"
  by (simp add: array_from_set_def fold_seen_distinct)

lemma set_array_from_set: "set (array_from_set ws) = set ws"
  by (simp add: array_from_set_def fold_seen_set)

lemma length_array_from_set: "length (array_from_set ws) \<le> length ws"
  using fold_seen_length [of ws "[]"] by (simp add: array_from_set_def)

lemma array_from_set_nonempty: "ws \<noteq> [] \<Longrightarrow> array_from_set ws \<noteq> []"
  using set_array_from_set [of ws] by (metis set_empty)

lemma draw_words_length: "draw_words g k j = (ws, k') \<Longrightarrow> length ws = j"
proof (induction j arbitrary: k ws k')
  case 0
  then show ?case by simp
next
  case (Suc j)
  then show ?case
    by (fastforce simp: Let_def split: prod.splits if_splits)
qed

lemma length_draw_words: "length (fst (draw_words g k j)) = j"
  using draw_words_length [of g k j] by (cases "draw_words g k j") simp

lemma floor_random_less: "0 < m \<Longrightarrow> floor_random g k m < m"
proof -
  assume m: "0 < m"
  have "g k mod 10000 < 10000" by simp
  then have "(g k mod 10000) * m < 10000 * m"
    using m by simp
  then show ?thesis
    by (simp add: floor_random_def less_mult_imp_div_less mult.commute)
qed

lemma length_fallback_loop: "length (fallback_loop g clk i r k) = r"
  by (induction r arbitrary: i k) (simp_all add: Let_def split: prod.splits)

lemma fallback_loop_nth:
  "j < r \<Longrightarrow>
   \<exists>k'. fallback_loop g clk i r k ! j =
     \<lparr>categoryName =
        JStr (adjectives ! ((i + j) mod length adjectives) @ '' '' @
              nouns ! ((i + j) mod length nouns) @ '' '' @
              string_of_nat (floor_random g k' 10000)),
      words = take 20 (array_from_set (fst (draw_words g (k' + 1) (5 + (i + j) mod 16)))),
      createdAt = clk (i + j), ai = Some ''No-ai-fallback''\<rparr>"
proof (induction r arbitrary: i j k)
  case 0
  then show ?case by simp
next
  case (Suc r)
  show ?case
  proof (cases j)
    case 0
    then show ?thesis
      by (auto simp: Let_def split: prod.splits intro!: exI [of _ k])
  next
    case (Suc j')
    then have "j' < r" using Suc.prems by simp
    from Suc.IH [OF this, of "i + 1"] Suc show ?thesis
      by (simp add: Let_def split: prod.splits)
  qed
qed

lemma draw_words_numeral:
  "draw_words g k (numeral n) =
     (let w = wordsPool ! floor_random g k (length wordsPool);
          (suffix, k1) =
            (if random_below_tenth g (k + 1)
             then (''_'' @ string_of_nat (floor_random g (k + 2) 100), k + 3)
             else ([], k + 2));
          (ws, k2) = draw_words g k1 (pred_numeral n)
      in ((w @ suffix) # ws, k2))"
  using draw_words.simps(2) [of g k "pred_numeral n"] by (simp only: numeral_eq_Suc)

lemma fallbackGenerate_nth:
  assumes "i < n"
  shows "\<exists>k. fallbackGenerate n g clk ! i =
     \<lparr>categoryName =
        JStr (adjectives ! (i mod length adjectives) @ '' '' @
              nouns ! (i mod length nouns) @ '' '' @
              string_of_nat (floor_random g k 10000)),
      words = take 20 (array_from_set (fst (draw_words g (k + 1) (5 + i mod 16)))),
      createdAt = clk i, ai = Some ''No-ai-fallback''\<rparr>"
  using fallback_loop_nth [OF assms, of g clk 0 0] by (simp add: fallbackGenerate_def)

lemma pooled_words_bounds:
  "1 \<le> length (take 20 (array_from_set (fst (draw_words g k (5 + m))))) \<and>
   length (take 20 (array_from_set (fst (draw_words g k (5 + m))))) \<le> 5 + m \<and>
   distinct (take 20 (array_from_set (fst (draw_words g k (5 + m)))))"
proof -
  let ?ws = "fst (draw_words g k (5 + m))"
  have len: "length ?ws = 5 + m" by (rule length_draw_words)
  then have "?ws \<noteq> []" by auto
  then have "array_from_set ?ws \<noteq> []" by (rule array_from_set_nonempty)
  then have "1 \<le> length (array_from_set ?ws)"
    by (cases "array_from_set ?ws") simp_all
  moreover have "length (array_from_set ?ws) \<le> 5 + m"
    using length_array_from_set [of ?ws] len by simp
  ultimately show ?thesis
    by (simp add: distinct_array_from_set)
qed

text \<open>
  Claim C7. Record \<open>i\<close> of the fallback generator has between 1 and \<open>5 + i mod 16\<close>
  words (the pool is drawn from 5 to 20 times and the draws are de-duplicated, so fewer
  than 5 words can remain), at most 20, no word twice; its name is an adjective, a noun
  and the decimal text of a number below 10000, separated by spaces; its tag is
  \<^verbatim>\<open>No-ai-fallback\<close>.
\<close>

theorem fallback_record_shape:
  assumes "i < n"
  shows "1 \<le> length (words (fallbackGenerate n g clk ! i)) \<and>
         length (words (fallbackGenerate n g clk ! i)) \<le> 5 + i mod 16 \<and>
         5 + i mod 16 \<le> 20 \<and>
         distinct (words (fallbackGenerate n g clk ! i)) \<and>
         ai (fallbackGenerate n g clk ! i) = Some ''No-ai-fallback'' \<and>
         (\<exists>s<10000. categoryName (fallbackGenerate n g clk ! i) =
            JStr (adjectives ! (i mod length adjectives) @ '' '' @
                  nouns ! (i mod length nouns) @ '' '' @ string_of_nat s))"
proof -
  obtain k where r: "fallbackGenerate n g clk ! i =
     \<lparr>categoryName =
        JStr (adjectives ! (i mod length adjectives) @ '' '' @
              nouns ! (i mod length nouns) @ '' '' @
              string_of_nat (floor_random g k 10000)),
      words = take 20 (array_from_set (fst (draw_words g (k + 1) (5 + i mod 16)))),
      createdAt = clk i, ai = Some ''No-ai-fallback''\<rparr>"
    using fallbackGenerate_nth [OF assms] by blast
  have s: "floor_random g k 10000 < 10000"
    by (rule floor_random_less) simp
  have m: "5 + i mod 16 \<le> 20"
    using mod_less_divisor [of 16 i] by linarith
  show ?thesis
    unfolding r using pooled_words_bounds [of g "k + 1" "i mod 16"] s m by auto
qed

theorem fallback_five_words_counterexample:
  "words (fallbackGenerate 1 (\<lambda>k. 5000) (\<lambda>i. 0) ! 0) = [''bird''] \<and>
   length (words (fallbackGenerate 1 (\<lambda>k. 5000) (\<lambda>i. 0) ! 0)) < 5"
  by (simp add: fallbackGenerate_def floor_random_def random_below_tenth_def wordsPool_def
      array_from_set_def draw_words_numeral)

theorem fallback_record_shape_witness:
  "(2 :: nat) < 3 \<and>
   1 \<le> length (words (fallbackGenerate 3 (\<lambda>k. 5000) (\<lambda>i. 0) ! 2)) \<and>
   length (words (fallbackGenerate 3 (\<lambda>k. 5000) (\<lambda>i. 0) ! 2)) \<le> 7 \<and>
   distinct (words (fallbackGenerate 3 (\<lambda>k. 5000) (\<lambda>i. 0) ! 2)) \<and>
   ai (fallbackGenerate 3 (\<lambda>k. 5000) (\<lambda>i. 0) ! 2) = Some ''No-ai-fallback'' \<and>
   (\<exists>s<10000. categoryName (fallbackGenerate 3 (\<lambda>k. 5000) (\<lambda>i. 0) ! 2) =
      JStr (''golden market '' @ string_of_nat s))"
proof -
  have h: "(2 :: nat) < 3" by simp
  show ?thesis
    using h fallback_record_shape [OF h, of "\<lambda>k. 5000" "\<lambda>i. 0"]
    by (simp add: adjectives_def nouns_def)
qed

section \<open>The batch of the provider chain\<close>

lemma those_eq_Some: "those xs = Some ys \<longleftrightarrow> xs = map Some ys"
  by (induction xs arbitrary: ys) (auto split: option.splits)

lemma those_length: "those xs = Some ys \<Longrightarrow> length ys = length xs"
  by (simp add: those_eq_Some)

lemma normalize_item_Some:
  assumes "normalize_item tag t p = Some r"
  shows "length (words r) \<le> 20 \<and> ai r = Some tag \<and> (\<exists>name. categoryName r = JStr name)"
  using assms
  by (auto simp: normalize_item_def split: if_splits option.splits js.splits dest!: those_length)

lemma normalize_Some:
  assumes "normalize tag clk v = Some batch" and "r \<in> set batch"
  shows "length (words r) \<le> 20 \<and> ai r = Some tag \<and> (\<exists>name. categoryName r = JStr name)"
proof -
  from assms(1) obtain ps where
    "map (\<lambda>(i, p). normalize_item tag (clk i) p) (enumerate 0 ps) = map Some batch"
    by (auto simp: normalize_def those_eq_Some split: js.splits)
  then have "Some r \<in> set (map (\<lambda>(i, p). normalize_item tag (clk i) p) (enumerate 0 ps))"
    using assms(2) by simp
  then obtain i p where "normalize_item tag (clk i) p = Some r"
    by auto
  then show ?thesis
    by (rule normalize_item_Some)
qed

lemma fallbackGenerate_record:
  assumes "r \<in> set (fallbackGenerate n g clk)"
  shows "1 \<le> length (words r) \<and> length (words r) \<le> 20 \<and> distinct (words r) \<and>
         ai r = Some ''No-ai-fallback'' \<and> (\<exists>name. name \<noteq> [] \<and> categoryName r = JStr name)"
proof -
  have len: "length (fallbackGenerate n g clk) = n"
    by (simp add: fallbackGenerate_def length_fallback_loop)
  from assms obtain i where i: "i < n" and r: "r = fallbackGenerate n g clk ! i"
    using len by (metis in_set_conv_nth)
  obtain k where "r =
     \<lparr>categoryName =
        JStr (adjectives ! (i mod length adjectives) @ '' '' @
              nouns ! (i mod length nouns) @ '' '' @
              string_of_nat (floor_random g k 10000)),
      words = take 20 (array_from_set (fst (draw_words g (k + 1) (5 + i mod 16)))),
      createdAt = clk i, ai = Some ''No-ai-fallback''\<rparr>"
    using fallbackGenerate_nth [OF i, of g clk] r by auto
  moreover have "5 + i mod 16 \<le> 20"
    using mod_less_divisor [of 16 i] by linarith
  ultimately show ?thesis
    using pooled_words_bounds [of g "k + 1" "i mod 16"] by auto
qed

lemma generateCategories_source:
  "(\<exists>v. key_set (GEMINI_API_KEY e) \<and> gemini io = Parsed v \<and>
        normalize ''gemini'' (clock io) v = Some (fst (generateCategories e io n))) \<or>
   (\<exists>v. key_set (MISTRAL_API_KEY e) \<and> mistral io = Parsed v \<and>
        normalize ''mistral'' (clock io) v = Some (fst (generateCategories e io n))) \<or>
   fst (generateCategories e io n) = fallbackGenerate n (rand io) (clock io)"
  by (auto simp: generateCategories_def provider_attempt_def
      split: prod.splits option.splits reply.splits)

lemma generateCategories_record:
  assumes "r \<in> set (fst (generateCategories e io n))"
  shows "length (words r) \<le> 20 \<and>
         ai r \<in> {Some ''gemini'', Some ''mistral'', Some ''No-ai-fallback''} \<and>
         (\<exists>name. categoryName r = JStr name)"
  using generateCategories_source [of e io n] assms
    normalize_Some [of "''gemini''" "clock io" _ "fst (generateCategories e io n)" r]
    normalize_Some [of "''mistral''" "clock io" _ "fst (generateCategories e io n)" r]
    fallbackGenerate_record [of r n "rand io" "clock io"]
  by (elim disjE exE conjE) auto

lemma normalize_length:
  "normalize tag clk (JArr ps) = Some batch \<Longrightarrow> length batch = length ps"
  by (auto simp: normalize_def dest!: those_length)

lemma provider_attempt_fails:
  "rep = Throws \<or> rep = No_text \<or> rep = Unparseable \<or>
   (\<exists>v. rep = Parsed v \<and> normalize tag clk v = None) \<Longrightarrow>
   fst (provider_attempt tag w clk rep) = None"
  by (auto simp: provider_attempt_def)

lemma provider_attempt_returns:
  "normalize tag clk v = Some batch \<Longrightarrow>
   provider_attempt tag w clk (Parsed v) = (Some batch, [])"
  by (simp add: provider_attempt_def)

lemma generateCategories_gemini:
  assumes "key_set (GEMINI_API_KEY e)" and "gemini io = Parsed v"
    and "normalize ''gemini'' (clock io) v = Some batch"
  shows "generateCategories e io n = (batch, [])"
  using assms by (simp add: generateCategories_def provider_attempt_returns)

lemma generateCategories_mistral:
  assumes "\<not> key_set (GEMINI_API_KEY e) \<or>
           fst (provider_attempt ''gemini'' ''Gemini generation failed:'' (clock io) (gemini io)) = None"
    and "key_set (MISTRAL_API_KEY e)" and "mistral io = Parsed v"
    and "normalize ''mistral'' (clock io) v = Some batch"
  shows "fst (generateCategories e io n) = batch"
  using assms
  by (auto simp: generateCategories_def provider_attempt_returns split: prod.splits)

lemma generateCategories_fallback:
  assumes "\<not> key_set (GEMINI_API_KEY e) \<or>
           fst (provider_attempt ''gemini'' ''Gemini generation failed:'' (clock io) (gemini io)) = None"
    and "\<not> key_set (MISTRAL_API_KEY e) \<or>
           fst (provider_attempt ''mistral'' ''Mistral generation failed:'' (clock io) (mistral io)) = None"
  shows "fst (generateCategories e io n) = fallbackGenerate n (rand io) (clock io)"
  using assms by (auto simp: generateCategories_def split: prod.splits)

text \<open>
  Claim C1. When no provider returns a batch, because it has no key or because its
  attempt throws, has no reply text, does not parse or cannot be normalised,
  \<^verbatim>\<open>generateCategories(n)\<close> returns exactly \<open>n\<close> records, each with a non-empty name and
  between 1 and 20 words. When the reply of a provider that is reached parses to an array
  that normalises, that batch is what is returned, with as many records as the array
  holds, whatever \<open>n\<close> is. In every case each record returned has at most 20 words.
\<close>

theorem generateCategories_batch_count:
  "((\<not> key_set (GEMINI_API_KEY e) \<or> gemini io = Throws \<or> gemini io = No_text \<or>
      gemini io = Unparseable \<or>
      (\<exists>v. gemini io = Parsed v \<and> normalize ''gemini'' (clock io) v = None)) \<and>
     (\<not> key_set (MISTRAL_API_KEY e) \<or> mistral io = Throws \<or> mistral io = No_text \<or>
      mistral io = Unparseable \<or>
      (\<exists>v. mistral io = Parsed v \<and> normalize ''mistral'' (clock io) v = None)) \<longrightarrow>
      length (fst (generateCategories e io n)) = n \<and>
      (\<forall>r \<in> set (fst (generateCategories e io n)).
         (\<exists>name. name \<noteq> [] \<and> categoryName r = JStr name) \<and>
         1 \<le> length (words r) \<and> length (words r) \<le> 20)) \<and>
   (key_set (GEMINI_API_KEY e) \<and> gemini io = Parsed (JArr ps) \<and>
      normalize ''gemini'' (clock io) (JArr ps) = Some batch \<longrightarrow>
      fst (generateCategories e io n) = batch \<and> length batch = length ps) \<and>
   ((\<not> key_set (GEMINI_API_KEY e) \<or> gemini io = Throws \<or> gemini io = No_text \<or>
      gemini io = Unparseable \<or>
      (\<exists>v. gemini io = Parsed v \<and> normalize ''gemini'' (clock io) v = None)) \<and>
     key_set (MISTRAL_API_KEY e) \<and> mistral io = Parsed (JArr ps) \<and>
      normalize ''mistral'' (clock io) (JArr ps) = Some batch \<longrightarrow>
      fst (generateCategories e io n) = batch \<and> length batch = length ps) \<and>
   (\<forall>r \<in> set (fst (generateCategories e io n)). length (words r) \<le> 20)"
proof -
  let ?gemini_fails = "\<not> key_set (GEMINI_API_KEY e) \<or> gemini io = Throws \<or> gemini io = No_text \<or>
      gemini io = Unparseable \<or>
      (\<exists>v. gemini io = Parsed v \<and> normalize ''gemini'' (clock io) v = None)"
  let ?mistral_fails = "\<not> key_set (MISTRAL_API_KEY e) \<or> mistral io = Throws \<or> mistral io = No_text \<or>
      mistral io = Unparseable \<or>
      (\<exists>v. mistral io = Parsed v \<and> normalize ''mistral'' (clock io) v = None)"
  have g: "\<not> key_set (GEMINI_API_KEY e) \<or>
      fst (provider_attempt ''gemini'' ''Gemini generation failed:'' (clock io) (gemini io)) = None"
    if ?gemini_fails
    using that provider_attempt_fails
      [where rep = "gemini io" and tag = "''gemini''" and clk = "clock io"
        and w = "''Gemini generation failed:''"]
    by auto
  have m: "\<not> key_set (MISTRAL_API_KEY e) \<or>
      fst (provider_attempt ''mistral'' ''Mistral generation failed:'' (clock io) (mistral io)) = None"
    if ?mistral_fails
    using that provider_attempt_fails
      [where rep = "mistral io" and tag = "''mistral''" and clk = "clock io"
        and w = "''Mistral generation failed:''"]
    by auto
  have fallback: "length (fst (generateCategories e io n)) = n \<and>
      (\<forall>r \<in> set (fst (generateCategories e io n)).
         (\<exists>name. name \<noteq> [] \<and> categoryName r = JStr name) \<and>
         1 \<le> length (words r) \<and> length (words r) \<le> 20)"
    if ?gemini_fails ?mistral_fails
  proof -
    have "fst (generateCategories e io n) = fallbackGenerate n (rand io) (clock io)"
      using g [OF that(1)] m [OF that(2)] by (rule generateCategories_fallback)
    then show ?thesis
      using fallbackGenerate_record [of _ n "rand io" "clock io"]
      by (auto simp: fallbackGenerate_def length_fallback_loop)
  qed
  have first: "fst (generateCategories e io n) = batch \<and> length batch = length ps"
    if "key_set (GEMINI_API_KEY e)" "gemini io = Parsed (JArr ps)"
      "normalize ''gemini'' (clock io) (JArr ps) = Some batch"
    using generateCategories_gemini [OF that, of n] normalize_length [OF that(3)] by simp
  have second: "fst (generateCategories e io n) = batch \<and> length batch = length ps"
    if ?gemini_fails "key_set (MISTRAL_API_KEY e)" "mistral io = Parsed (JArr ps)"
      "normalize ''mistral'' (clock io) (JArr ps) = Some batch"
    using generateCategories_mistral [OF g [OF that(1)] that(2,3,4), of n]
      normalize_length [OF that(4)] by simp
  have all: "\<forall>r \<in> set (fst (generateCategories e io n)). length (words r) \<le> 20"
    using generateCategories_record [of _ e io n] by blast
  show ?thesis
    using fallback first second all by blast
qed

theorem generateCategories_count_counterexample:
  "fst (generateCategories gemini_only
          \<lparr>gemini = Parsed (JArr [JObj [(''categoryName'', JStr '''')]]), mistral = Throws,
           rand = (\<lambda>k. 5000), clock = (\<lambda>i. 0)\<rparr> 100)
     = [\<lparr>categoryName = JStr '''', words = [], createdAt = 0, ai = Some ''gemini''\<rparr>] \<and>
   length (fst (generateCategories gemini_only
          \<lparr>gemini = Parsed (JArr [JObj [(''categoryName'', JStr '''')]]), mistral = Throws,
           rand = (\<lambda>k. 5000), clock = (\<lambda>i. 0)\<rparr> 100)) \<noteq> 100"
  by (simp add: generateCategories_def gemini_only_def key_set_def provider_attempt_def
      normalize_def normalize_item_def own_prop_def)

theorem generateCategories_batch_count_witness:
  "gemini unreachable_io = Throws \<and> mistral unreachable_io = Unparseable \<and>
   length (fst (generateCategories both_keys unreachable_io 3)) = 3 \<and>
   list_all (\<lambda>r. (\<exists>name. name \<noteq> [] \<and> categoryName r = JStr name) \<and>
                 1 \<le> length (words r) \<and> length (words r) \<le> 20)
     (fst (generateCategories both_keys unreachable_io 3)) \<and>
   key_set (GEMINI_API_KEY gemini_only) \<and>
   gemini gemini_fruits_io = Parsed (JArr [fruits_item]) \<and>
   normalize ''gemini'' (clock gemini_fruits_io) (JArr [fruits_item]) = Some [fruits ''gemini''] \<and>
   fst (generateCategories gemini_only gemini_fruits_io 100) = [fruits ''gemini''] \<and>
   gemini mistral_fruits_io = Throws \<and> key_set (MISTRAL_API_KEY both_keys) \<and>
   mistral mistral_fruits_io = Parsed (JArr [fruits_item]) \<and>
   normalize ''mistral'' (clock mistral_fruits_io) (JArr [fruits_item]) = Some [fruits ''mistral''] \<and>
   fst (generateCategories both_keys mistral_fruits_io 100) = [fruits ''mistral'']"
proof -
  have h1: "gemini unreachable_io = Throws" "mistral unreachable_io = Unparseable"
    by (simp_all add: unreachable_io_def)
  have h2: "key_set (GEMINI_API_KEY gemini_only)"
    "gemini gemini_fruits_io = Parsed (JArr [fruits_item])"
    "normalize ''gemini'' (clock gemini_fruits_io) (JArr [fruits_item]) = Some [fruits ''gemini'']"
    by (simp_all add: gemini_only_def key_set_def gemini_fruits_io_def normalize_def
        normalize_item_def own_prop_def fruits_item_def fruits_def)
  have h3: "gemini mistral_fruits_io = Throws" "key_set (MISTRAL_API_KEY both_keys)"
    "mistral mistral_fruits_io = Parsed (JArr [fruits_item])"
    "normalize ''mistral'' (clock mistral_fruits_io) (JArr [fruits_item]) = Some [fruits ''mistral'']"
    by (simp_all add: both_keys_def key_set_def mistral_fruits_io_def normalize_def
        normalize_item_def own_prop_def fruits_item_def fruits_def)
  have a: "length (fst (generateCategories both_keys unreachable_io 3)) = 3 \<and>
      (\<forall>r \<in> set (fst (generateCategories both_keys unreachable_io 3)).
         (\<exists>name. name \<noteq> [] \<and> categoryName r = JStr name) \<and>
         1 \<le> length (words r) \<and> length (words r) \<le> 20)"
    using h1 generateCategories_batch_count [of both_keys unreachable_io 3] by blast
  have b: "fst (generateCategories gemini_only gemini_fruits_io 100) = [fruits ''gemini'']"
    using h2 generateCategories_batch_count
      [of gemini_only gemini_fruits_io 100 "[fruits_item]" "[fruits ''gemini'']"]
    by blast
  have c: "fst (generateCategories both_keys mistral_fruits_io 100) = [fruits ''mistral'']"
    using h3 generateCategories_batch_count
      [of both_keys mistral_fruits_io 100 "[fruits_item]" "[fruits ''mistral'']"]
    by blast
  show ?thesis
    using h1 h2 h3 a b c by (simp add: list_all_iff)
qed

text \<open>
  Claim C6. A provider attempt that throws, whose reply does not parse, or whose
  parsed value cannot be normalised is logged, and the chain goes on as if that provider
  had no key: to the next provider, and from the last one to the fallback. An empty
  reply text goes on the same way without a log entry. A reply of either provider that
  parses to the empty array is not a failure: the empty batch is returned, nothing is
  logged for it and nothing further is tried. Whatever the providers do, a batch is
  returned.
\<close>

theorem provider_failure_falls_through:
  "(key_set (GEMINI_API_KEY e) \<and>
      (gemini io = Throws \<or> gemini io = Unparseable \<or>
       (\<exists>v. gemini io = Parsed v \<and> normalize ''gemini'' (clock io) v = None)) \<longrightarrow>
      generateCategories e io n =
        (fst (generateCategories (e\<lparr>GEMINI_API_KEY := None\<rparr>) io n),
         ''Gemini generation failed:'' #
           snd (generateCategories (e\<lparr>GEMINI_API_KEY := None\<rparr>) io n))) \<and>
   (key_set (GEMINI_API_KEY e) \<and> gemini io = No_text \<longrightarrow>
      generateCategories e io n = generateCategories (e\<lparr>GEMINI_API_KEY := None\<rparr>) io n) \<and>
   (\<not> key_set (GEMINI_API_KEY e) \<and> key_set (MISTRAL_API_KEY e) \<and>
      (mistral io = Throws \<or> mistral io = Unparseable \<or>
       (\<exists>v. mistral io = Parsed v \<and> normalize ''mistral'' (clock io) v = None)) \<longrightarrow>
      generateCategories e io n =
        (fallbackGenerate n (rand io) (clock io), [''Mistral generation failed:''])) \<and>
   (\<not> key_set (GEMINI_API_KEY e) \<and> key_set (MISTRAL_API_KEY e) \<and> mistral io = No_text \<longrightarrow>
      generateCategories e io n = (fallbackGenerate n (rand io) (clock io), [])) \<and>
   (\<not> key_set (GEMINI_API_KEY e) \<and> \<not> key_set (MISTRAL_API_KEY e) \<longrightarrow>
      generateCategories e io n = (fallbackGenerate n (rand io) (clock io), [])) \<and>
   (key_set (GEMINI_API_KEY e) \<and> gemini io = Parsed (JArr []) \<longrightarrow>
      generateCategories e io n = ([], [])) \<and>
   (\<not> key_set (GEMINI_API_KEY e) \<and> key_set (MISTRAL_API_KEY e) \<and>
      mistral io = Parsed (JArr []) \<longrightarrow>
      generateCategories e io n = ([], []))"
proof -
  have gem_fail: "generateCategories e io n =
        (fst (generateCategories (e\<lparr>GEMINI_API_KEY := None\<rparr>) io n),
         ''Gemini generation failed:'' #
           snd (generateCategories (e\<lparr>GEMINI_API_KEY := None\<rparr>) io n))"
    if "key_set (GEMINI_API_KEY e)"
      "provider_attempt ''gemini'' ''Gemini generation failed:'' (clock io) (gemini io) =
         (None, [''Gemini generation failed:''])"
    using that by (simp add: generateCategories_def key_set_def split: prod.splits option.splits)
  have gem_skip: "generateCategories e io n = generateCategories (e\<lparr>GEMINI_API_KEY := None\<rparr>) io n"
    if "key_set (GEMINI_API_KEY e)" "gemini io = No_text"
    using that
    by (simp add: generateCategories_def key_set_def provider_attempt_def
        split: prod.splits option.splits)
  have mis: "generateCategories e io n = (fallbackGenerate n (rand io) (clock io), lg)"
    if "\<not> key_set (GEMINI_API_KEY e)" "key_set (MISTRAL_API_KEY e)"
      "provider_attempt ''mistral'' ''Mistral generation failed:'' (clock io) (mistral io) = (None, lg)"
    for lg
    using that by (simp add: generateCategories_def)
  have none: "generateCategories e io n = (fallbackGenerate n (rand io) (clock io), [])"
    if "\<not> key_set (GEMINI_API_KEY e)" "\<not> key_set (MISTRAL_API_KEY e)"
    using that by (simp add: generateCategories_def)
  have empty: "generateCategories e io n = ([], [])"
    if "key_set (GEMINI_API_KEY e)" "gemini io = Parsed (JArr [])"
    using that by (simp add: generateCategories_def provider_attempt_def normalize_def)
  have mistral_empty: "generateCategories e io n = ([], [])"
    if "\<not> key_set (GEMINI_API_KEY e)" "key_set (MISTRAL_API_KEY e)"
      "mistral io = Parsed (JArr [])"
    using that by (simp add: generateCategories_def provider_attempt_def normalize_def)
  have attempt_fails: "provider_attempt tag w (clock io) rep = (None, [w])"
    if "rep = Throws \<or> rep = Unparseable \<or>
        (\<exists>v. rep = Parsed v \<and> normalize tag (clock io) v = None)" for tag w rep
    using that by (auto simp: provider_attempt_def)
  have attempt_skips: "provider_attempt tag w (clock io) No_text = (None, [])" for tag w
    by (simp add: provider_attempt_def)
  show ?thesis
    using gem_fail gem_skip mis none empty mistral_empty attempt_fails attempt_skips
    by (intro conjI impI) (simp_all del: ex_simps)
qed

theorem empty_result_counterexample:
  "generateCategories both_keys
     \<lparr>gemini = Parsed (JArr []),
      mistral = Parsed (JArr [JObj [(''categoryName'', JStr ''fruits''),
                                   (''words'', JArr [JStr ''pomme''])]]),
      rand = (\<lambda>k. 5000), clock = (\<lambda>i. 0)\<rparr> 100 = ([], [])"
  by (simp add: generateCategories_def both_keys_def key_set_def provider_attempt_def
      normalize_def)

theorem provider_failure_falls_through_witness:
  "key_set (GEMINI_API_KEY both_keys) \<and> gemini unreachable_io = Throws \<and>
   \<not> key_set (GEMINI_API_KEY (both_keys\<lparr>GEMINI_API_KEY := None\<rparr>)) \<and>
   key_set (MISTRAL_API_KEY (both_keys\<lparr>GEMINI_API_KEY := None\<rparr>)) \<and>
   mistral unreachable_io = Unparseable \<and>
   generateCategories both_keys unreachable_io 3 =
     (fallbackGenerate 3 (rand unreachable_io) (clock unreachable_io),
      [''Gemini generation failed:'', ''Mistral generation failed:'']) \<and>
   gemini mistral_empty_io = Throws \<and> mistral mistral_empty_io = Parsed (JArr []) \<and>
   generateCategories both_keys mistral_empty_io 100 = ([], [''Gemini generation failed:''])"
proof -
  have h: "key_set (GEMINI_API_KEY both_keys)" "gemini unreachable_io = Throws"
    "\<not> key_set (GEMINI_API_KEY (both_keys\<lparr>GEMINI_API_KEY := None\<rparr>))"
    "key_set (MISTRAL_API_KEY (both_keys\<lparr>GEMINI_API_KEY := None\<rparr>))"
    "mistral unreachable_io = Unparseable"
    by (simp_all add: both_keys_def unreachable_io_def key_set_def)
  have h': "gemini mistral_empty_io = Throws" "mistral mistral_empty_io = Parsed (JArr [])"
    by (simp_all add: mistral_empty_io_def)
  have first: "generateCategories both_keys unreachable_io 3 =
      (fst (generateCategories (both_keys\<lparr>GEMINI_API_KEY := None\<rparr>) unreachable_io 3),
       ''Gemini generation failed:'' #
         snd (generateCategories (both_keys\<lparr>GEMINI_API_KEY := None\<rparr>) unreachable_io 3))"
    using h(1,2) provider_failure_falls_through [of both_keys unreachable_io 3] by blast
  have second: "generateCategories (both_keys\<lparr>GEMINI_API_KEY := None\<rparr>) unreachable_io 3 =
      (fallbackGenerate 3 (rand unreachable_io) (clock unreachable_io),
       [''Mistral generation failed:''])"
    using h(3,4,5)
      provider_failure_falls_through [of "both_keys\<lparr>GEMINI_API_KEY := None\<rparr>" unreachable_io 3]
    by blast
  have third: "generateCategories both_keys mistral_empty_io 100 =
      (fst (generateCategories (both_keys\<lparr>GEMINI_API_KEY := None\<rparr>) mistral_empty_io 100),
       ''Gemini generation failed:'' #
         snd (generateCategories (both_keys\<lparr>GEMINI_API_KEY := None\<rparr>) mistral_empty_io 100))"
    using h(1) h'(1) provider_failure_falls_through [of both_keys mistral_empty_io 100] by blast
  have fourth: "generateCategories (both_keys\<lparr>GEMINI_API_KEY := None\<rparr>) mistral_empty_io 100 =
      ([], [])"
    using h(3,4) h'(2)
      provider_failure_falls_through [of "both_keys\<lparr>GEMINI_API_KEY := None\<rparr>" mistral_empty_io 100]
    by blast
  show ?thesis
    using h h' by (simp add: first second third fourth)
qed

section \<open>Creating a category\<close>

lemma own_prop_body: "own_prop (if truthy body then body else JObj []) k = own_prop body k"
  by (cases body) (simp_all add: own_prop_def)

lemma post_categories_eq:
  "post_categories (Some c) body now =
     (if rejects (own_prop body ''categoryName'') (own_prop body ''words'') then (Status400, Some c)
      else
        (case insertOne
                \<lparr>categoryName = own_prop body ''categoryName'',
                 words = strings_of (own_prop body ''words''), createdAt = now, ai = None\<rparr> c of
           Inr (i, c') \<Rightarrow> (Status201 i, Some c')
         | Inl code \<Rightarrow> (if code = 11000 then Status409 else Status500, Some c)))"
  by (simp add: post_categories_def Let_def own_prop_body)

lemma post_rejects_iff:
  "fst (post_categories (Some c) body now) = Status400 \<longleftrightarrow>
   rejects (own_prop body ''categoryName'') (own_prop body ''words'')"
  by (auto simp: post_categories_eq split: sum.splits)

text \<open>
  Claim C3. On a collection that has the unique index and already holds a record
  with the posted name, \<^verbatim>\<open>POST /categories\<close> leaves the collection as it is and never
  answers 201; it answers 409 exactly when the body passes the guard and the validator
  accepts the document (400 and 500 otherwise). Without the index
  (its creation failed and was only logged) a valid duplicate is inserted and answered by 201.
\<close>

theorem duplicate_name_conflict_with_index:
  assumes "unique_index c"
    and "own_prop body ''categoryName'' \<in> set (map (categoryName \<circ> snd) (docs c))"
  shows "snd (post_categories (Some c) body now) = Some c \<and>
         (fst (post_categories (Some c) body now) = Status409 \<or>
          fst (post_categories (Some c) body now) = Status400 \<or>
          fst (post_categories (Some c) body now) = Status500) \<and>
         (fst (post_categories (Some c) body now) = Status409 \<longleftrightarrow>
            \<not> rejects (own_prop body ''categoryName'') (own_prop body ''words'') \<and>
            validator c \<lparr>categoryName = own_prop body ''categoryName'',
                         words = strings_of (own_prop body ''words''), createdAt = now, ai = None\<rparr>)"
  using assms by (simp add: post_categories_eq insertOne_def write_error_def)

theorem duplicate_without_index_counterexample:
  "init_collection (Some degraded_store) =
     Some (degraded_store, [''Could not create unique index:'']) \<and>
   post_categories (Some degraded_store) request_a 5 =
     (Status201 2,
      Some \<lparr>docs = [(0, \<lparr>categoryName = JStr ''a'', words = [''w''], createdAt = 0, ai = None\<rparr>),
                    (1, \<lparr>categoryName = JStr ''a'', words = [''v''], createdAt = 0, ai = None\<rparr>),
                    (2, \<lparr>categoryName = JStr ''a'', words = [''w''], createdAt = 5, ai = None\<rparr>)],
            unique_index = False, validator = (\<lambda>d. True), next_id = 3\<rparr>)"
  by (simp add: init_collection_def createIndex_def degraded_store_def request_a_def
      post_categories_eq rejects_def strings_of_def own_prop_def insertOne_def write_error_def)

theorem duplicate_name_conflict_with_index_witness:
  "unique_index one_doc_store \<and>
   own_prop request_a ''categoryName'' \<in> set (map (categoryName \<circ> snd) (docs one_doc_store)) \<and>
   post_categories (Some one_doc_store) request_a 5 = (Status409, Some one_doc_store)"
proof -
  have h1: "unique_index one_doc_store"
    by (simp add: one_doc_store_def)
  have h2: "own_prop request_a ''categoryName'' \<in> set (map (categoryName \<circ> snd) (docs one_doc_store))"
    by (simp add: one_doc_store_def request_a_def own_prop_def)
  have ok: "\<not> rejects (own_prop request_a ''categoryName'') (own_prop request_a ''words'')"
    by (simp add: request_a_def own_prop_def rejects_def)
  have v: "validator one_doc_store d" for d
    by (simp add: one_doc_store_def)
  show ?thesis
    using h1 h2 ok v duplicate_name_conflict_with_index [OF h1 h2, of 5]
    by (simp add: prod_eq_iff)
qed

text \<open>
  Claim C8. The guard tests \<^verbatim>\<open>!categoryName\<close> only: a body whose
  \<^verbatim>\<open>categoryName\<close> is the number 42 is not answered by 400 but inserted and answered
  by 201.
\<close>

theorem post_accepts_number_name:
  "post_categories (Some one_doc_store)
     (JObj [(''categoryName'', JNum ''42''), (''words'', JArr [JStr ''w''])]) 5 =
     (Status201 1,
      Some \<lparr>docs = [(0, \<lparr>categoryName = JStr ''a'', words = [''w''], createdAt = 0, ai = None\<rparr>),
                    (1, \<lparr>categoryName = JNum ''42'', words = [''w''], createdAt = 5, ai = None\<rparr>)],
            unique_index = True, validator = (\<lambda>d. True), next_id = 2\<rparr>)"
  by (simp add: post_categories_eq rejects_def strings_of_def own_prop_def insertOne_def
      write_error_def one_doc_store_def)

section \<open>The collection under a request\<close>

lemma insertOne_Inr:
  "insertOne d c = Inr (i, c') \<Longrightarrow>
   docs c' = docs c @ [(i, d)] \<and> unique_index c' = unique_index c \<and>
   validator c' = validator c \<and> write_error c d = None"
  by (auto simp: insertOne_def split: option.splits)

lemma insertMany_effect:
  "insertMany ds c = (c', k) \<Longrightarrow>
   (\<exists>new. docs c' = docs c @ new \<and> length new = k \<and> snd ` set new \<subseteq> set ds) \<and>
   k \<le> length ds \<and> unique_index c' = unique_index c \<and> validator c' = validator c"
proof (induction ds arbitrary: c c' k)
  case Nil
  then show ?case by simp
next
  case (Cons d ds)
  show ?case
  proof (cases "insertOne d c")
    case (Inl code)
    with Cons.prems have "insertMany ds c = (c', k)" by simp
    from Cons.IH [OF this] show ?thesis by auto
  next
    case (Inr p)
    obtain i c1 where p: "p = (i, c1)" by (cases p)
    obtain c2 k2 where rest: "insertMany ds c1 = (c2, k2)" by (cases "insertMany ds c1")
    from Cons.prems Inr p rest have eq: "c' = c2" "k = Suc k2" by simp_all
    from insertOne_Inr [of d c i c1] Inr p
    have one: "docs c1 = docs c @ [(i, d)]" "unique_index c1 = unique_index c"
      "validator c1 = validator c" by simp_all
    from Cons.IH [OF rest] obtain new where
      new: "docs c2 = docs c1 @ new" "length new = k2" "snd ` set new \<subseteq> set ds"
      and more: "k2 \<le> length ds" "unique_index c2 = unique_index c1" "validator c2 = validator c1"
      by blast
    have "docs c' = docs c @ ((i, d) # new) \<and> length ((i, d) # new) = k \<and>
          snd ` set ((i, d) # new) \<subseteq> set (d # ds)"
      using new one eq by auto
    then show ?thesis
      using more one eq by (intro conjI exI [of _ "(i, d) # new"]) simp_all
  qed
qed

lemma insertMany_all:
  "\<not> unique_index c \<Longrightarrow> \<forall>d \<in> set ds. validator c d \<Longrightarrow> snd (insertMany ds c) = length ds"
proof (induction ds arbitrary: c)
  case Nil
  then show ?case by simp
next
  case (Cons d ds)
  let ?c1 = "c\<lparr>docs := docs c @ [(next_id c, d)], next_id := Suc (next_id c)\<rparr>"
  have one: "insertOne d c = Inr (next_id c, ?c1)"
    using Cons.prems by (simp add: insertOne_def write_error_def)
  have "snd (insertMany ds ?c1) = length ds"
    using Cons.prems by (intro Cons.IH) simp_all
  then show ?case
    using one by (cases "insertMany ds ?c1") simp
qed

lemma length_sample: "length (sample srv p k ds) = min k (length ds)"
proof (induction k arbitrary: p ds)
  case 0
  then show ?case by simp
next
  case (Suc k)
  show ?case
  proof (cases "ds = []")
    case True
    then show ?thesis by simp
  next
    case False
    define i where "i = srv p mod length ds"
    define rest where "rest = take i ds @ drop (Suc i) ds"
    have i: "i < length ds" using False by (simp add: i_def)
    then have len: "length rest = length ds - 1"
      by (simp add: rest_def)
    have "sample srv p (Suc k) ds = ds ! i # sample srv (Suc p) k rest"
      using False by (simp add: Let_def i_def rest_def)
    then have "length (sample srv p (Suc k) ds) = Suc (min k (length ds - 1))"
      using Suc.IH [of "Suc p" rest] len by simp
    moreover have "Suc (min k (length ds - 1)) = min (Suc k) (length ds)"
      using i by linarith
    ultimately show ?thesis
      by (simp only:)
  qed
qed

lemma sample_distinct:
  "distinct (map fst ds) \<Longrightarrow>
   distinct (map fst (sample srv p k ds)) \<and> set (sample srv p k ds) \<subseteq> set ds"
proof (induction k arbitrary: p ds)
  case 0
  then show ?case by simp
next
  case (Suc k)
  show ?case
  proof (cases "ds = []")
    case True
    then show ?thesis by simp
  next
    case False
    define i where "i = srv p mod length ds"
    define rest where "rest = take i ds @ drop (Suc i) ds"
    have i: "i < length ds" using False by (simp add: i_def)
    have split: "ds = take i ds @ ds ! i # drop (Suc i) ds"
      using i by (rule id_take_nth_drop)
    have d: "distinct (map fst (take i ds @ ds ! i # drop (Suc i) ds))"
      using Suc.prems split by simp
    then have rest_distinct: "distinct (map fst rest)" and
      fresh: "fst (ds ! i) \<notin> fst ` set rest"
      by (auto simp: rest_def)
    have rest_sub: "set rest \<subseteq> set ds"
      by (auto simp: rest_def dest: in_set_takeD in_set_dropD)
    from Suc.IH [OF rest_distinct, of "Suc p"]
    have ih: "distinct (map fst (sample srv (Suc p) k rest))"
      "set (sample srv (Suc p) k rest) \<subseteq> set rest" by simp_all
    have "sample srv p (Suc k) ds = ds ! i # sample srv (Suc p) k rest"
      using False by (simp add: Let_def i_def rest_def)
    moreover have "fst (ds ! i) \<notin> fst ` set (sample srv (Suc p) k rest)"
      using fresh ih(2) by auto
    moreover have "ds ! i \<in> set ds" using i by simp
    ultimately show ?thesis
      using ih rest_sub by auto
  qed
qed

lemma deleteMany_count:
  assumes "distinct (map fst (docs c))" and "distinct ids" and "set ids \<subseteq> fst ` set (docs c)"
  shows "countDocuments (deleteMany ids c) = countDocuments c - length ids"
proof -
  let ?xs = "map fst (docs c)"
  have "length (filter (\<lambda>d. fst d \<in> set ids) (docs c)) = length (filter (\<lambda>x. x \<in> set ids) ?xs)"
    by (simp add: filter_map comp_def)
  also have "\<dots> = card ({x. x \<in> set ids} \<inter> set ?xs)"
    using assms(1) by (rule distinct_length_filter)
  also have "{x. x \<in> set ids} \<inter> set ?xs = set ids"
    using assms(3) by auto
  also have "card (set ids) = length ids"
    using assms(2) by (rule distinct_card)
  finally have "length (filter (\<lambda>d. fst d \<in> set ids) (docs c)) = length ids" .
  moreover have "length (filter (\<lambda>d. fst d \<in> set ids) (docs c)) +
      length (filter (\<lambda>d. fst d \<notin> set ids) (docs c)) = length (docs c)"
    using sum_length_filter_compl [of "\<lambda>d. fst d \<in> set ids" "docs c"] by simp
  ultimately show ?thesis
    by (simp add: deleteMany_def countDocuments_def)
qed

lemma latest_createdAt_in_docs:
  "docs c \<noteq> [] \<Longrightarrow> \<exists>d \<in> set (docs c). latest_createdAt c = Some (createdAt (snd d))"
proof -
  assume ne: "docs c \<noteq> []"
  let ?s = "sort_key (\<lambda>d. - createdAt (snd d)) (docs c)"
  have "?s \<noteq> []" using ne by (metis length_sort length_0_conv)
  then obtain d ds where s: "?s = d # ds" by (cases ?s) auto
  then have "d \<in> set ?s" by simp
  then have "d \<in> set (docs c)" by simp
  moreover have "latest_createdAt c = Some (createdAt (snd d))"
    using s by (simp add: latest_createdAt_def find_recent_def)
  ultimately show ?thesis by blast
qed

lemma latest_createdAt_empty: "docs c = [] \<Longrightarrow> latest_createdAt c = None"
  by (simp add: latest_createdAt_def find_recent_def)

lemma ensure_fresh_eq:
  "ensure_fresh e srv io1 io2 now c =
     (let ids = map fst (sample srv 0 100 (docs c));
          r1 = insertMany (fst (generateCategories e io1 100))
                 (if ids \<noteq> [] then deleteMany ids c else c);
          c1 = (if 1000 < countDocuments c then fst r1 else c);
          w1 = (if 1000 < countDocuments c
                then (if ids \<noteq> [] then [Prune_delete ids] else []) @
                     [Prune_insert (fst (generateCategories e io1 100)) (snd r1)]
                else []);
          stale = (case latest_createdAt c of None \<Rightarrow> True | Some t \<Rightarrow> oneDayMs \<le> now - t);
          r2 = insertMany (fst (generateCategories e io2 100)) c1
      in (if stale then fst r2 else c1,
          w1 @ (if stale then [Fresh_insert (fst (generateCategories e io2 100)) (snd r2)] else [])))"
  by (simp add: ensure_fresh_def Let_def split: prod.splits)

lemma insertMany_count:
  "countDocuments (fst (insertMany ds c)) = countDocuments c + snd (insertMany ds c)"
  using insertMany_effect [of ds c "fst (insertMany ds c)" "snd (insertMany ds c)"]
  by (auto simp: countDocuments_def)

lemma insertMany_le: "snd (insertMany ds c) \<le> length ds"
  using insertMany_effect [of ds c "fst (insertMany ds c)" "snd (insertMany ds c)"] by simp

lemma prune_count:
  assumes "distinct (map fst (docs c))" and "1000 < countDocuments c"
  shows "countDocuments (deleteMany (map fst (sample srv 0 100 (docs c))) c) = countDocuments c - 100"
proof -
  let ?s = "sample srv 0 100 (docs c)"
  have len: "length ?s = 100"
    using assms(2) by (simp add: length_sample countDocuments_def)
  have "distinct (map fst ?s)" "set ?s \<subseteq> set (docs c)"
    using sample_distinct [OF assms(1), of srv 0 100] by simp_all
  then have "countDocuments (deleteMany (map fst ?s) c) = countDocuments c - length (map fst ?s)"
    by (intro deleteMany_count [OF assms(1)]) auto
  then show ?thesis
    using len by simp
qed

lemma fallback_batch_length:
  "\<not> key_set (GEMINI_API_KEY e) \<Longrightarrow> \<not> key_set (MISTRAL_API_KEY e) \<Longrightarrow>
   length (fst (generateCategories e io n)) = n"
  by (simp add: generateCategories_def fallbackGenerate_def length_fallback_loop)

text \<open>
  Claim C4. Both checks read the count and the newest \<^verbatim>\<open>createdAt\<close> of the
  collection as it was at entry. The capacity check fires exactly when that count exceeds
  1000: 100 sampled ids are deleted and the batch of the first generation is inserted.
  The freshness check fires exactly when that collection was empty or its newest record
  at least 24 hours old: the batch of the second generation is inserted. Either fires
  without the other. Each insert takes at most its batch; with distinct ids the final
  count is the old count, less 100 if the capacity check fired, plus the records inserted;
  with no provider key set at most 200 records are inserted.
\<close>

theorem capacity_and_freshness_from_snapshot:
  assumes "ensure_fresh e srv io1 io2 now c = (c', ws)"
  shows "\<exists>k1 k2.
     ws = (if 1000 < countDocuments c
           then [Prune_delete (map fst (sample srv 0 100 (docs c))),
                 Prune_insert (fst (generateCategories e io1 100)) k1]
           else []) @
          (if (case latest_createdAt c of None \<Rightarrow> True | Some t \<Rightarrow> oneDayMs \<le> now - t)
           then [Fresh_insert (fst (generateCategories e io2 100)) k2]
           else []) \<and>
     k1 \<le> length (fst (generateCategories e io1 100)) \<and>
     k2 \<le> length (fst (generateCategories e io2 100)) \<and>
     (1000 < countDocuments c \<longrightarrow> length (sample srv 0 100 (docs c)) = 100) \<and>
     (distinct (map fst (docs c)) \<longrightarrow>
        countDocuments c' =
          countDocuments c - (if 1000 < countDocuments c then 100 else 0) + inserted ws) \<and>
     (\<not> key_set (GEMINI_API_KEY e) \<and> \<not> key_set (MISTRAL_API_KEY e) \<longrightarrow> inserted ws \<le> 200)"
proof -
  define ids where "ids = map fst (sample srv 0 100 (docs c))"
  define b1 where "b1 = fst (generateCategories e io1 100)"
  define b2 where "b2 = fst (generateCategories e io2 100)"
  define r1 where "r1 = insertMany b1 (if ids \<noteq> [] then deleteMany ids c else c)"
  define c1 where "c1 = (if 1000 < countDocuments c then fst r1 else c)"
  define stale where
    "stale = (case latest_createdAt c of None \<Rightarrow> True | Some t \<Rightarrow> oneDayMs \<le> now - t)"
  define r2 where "r2 = insertMany b2 c1"
  define full where "full = (1000 < countDocuments c)"
  have sampled: "length (sample srv 0 100 (docs c)) = 100" if full
    using that by (simp add: length_sample countDocuments_def full_def)
  then have ids: "ids \<noteq> []" if full
    using that by (auto simp: ids_def)
  have c': "c' = (if stale then fst r2 else c1)"
    and ws: "ws = (if full then [Prune_delete ids, Prune_insert b1 (snd r1)] else []) @
                  (if stale then [Fresh_insert b2 (snd r2)] else [])"
    using assms ids
    by (auto simp: ensure_fresh_eq Let_def ids_def b1_def b2_def r1_def c1_def stale_def
        r2_def full_def)
  have k1: "snd r1 \<le> length b1" and k2: "snd r2 \<le> length b2"
    by (simp_all add: r1_def r2_def insertMany_le)
  have ins: "inserted ws = (if full then snd r1 else 0) + (if stale then snd r2 else 0)"
    by (simp add: ws)
  have count_c1: "countDocuments c1 = countDocuments c - (if full then 100 else 0) +
      (if full then snd r1 else 0)" if "distinct (map fst (docs c))"
  proof (cases full)
    case True
    then have "countDocuments (deleteMany ids c) = countDocuments c - 100"
      using prune_count [OF that, of srv] by (simp add: ids_def full_def)
    then show ?thesis
      using True ids insertMany_count [of b1 "deleteMany ids c"]
      by (simp add: c1_def r1_def full_def)
  next
    case False
    then show ?thesis by (simp add: c1_def full_def)
  qed
  have count: "countDocuments c' = countDocuments c - (if full then 100 else 0) + inserted ws"
    if "distinct (map fst (docs c))"
    using count_c1 [OF that] insertMany_count [of b2 c1]
    by (simp add: c' ins r2_def)
  have bound: "inserted ws \<le> 200"
    if "\<not> key_set (GEMINI_API_KEY e)" "\<not> key_set (MISTRAL_API_KEY e)"
  proof -
    have "length b1 = 100" "length b2 = 100"
      using that by (simp_all add: b1_def b2_def fallback_batch_length)
    then show ?thesis
      using k1 k2 by (simp add: ins)
  qed
  show ?thesis
    using ws k1 k2 sampled count bound
    unfolding ids_def b1_def b2_def stale_def full_def
    by (intro exI [of _ "snd r1"] exI [of _ "snd r2"]) simp
qed

lemma those_map_Some:
  "(\<And>x. x \<in> set xs \<Longrightarrow> f x = Some (g x)) \<Longrightarrow> those (map f xs) = Some (map g xs)"
  by (simp add: those_eq_Some)

lemma enumerate_map_upt: "enumerate 0 (map f [0..<n]) = map (\<lambda>i. (i, f i)) [0..<n]"
  by (rule nth_equalityI) (simp_all add: nth_enumerate_eq)

lemma generous_batch:
  "fst (generateCategories gemini_only (generous_io x) 100) =
     map (\<lambda>i. \<lparr>categoryName = JStr (replicate (Suc i) x), words = [''pomme''], createdAt = 0,
                 ai = Some ''gemini''\<rparr>) [0..<101]"
proof -
  let ?r = "\<lambda>i. \<lparr>categoryName = JStr (replicate (Suc i) x), words = [''pomme''], createdAt = 0,
                  ai = Some ''gemini''\<rparr>"
  have item: "normalize_item ''gemini'' 0 (generous_item x i) = Some (?r i)" for i
    by (simp add: normalize_item_def own_prop_def generous_item_def)
  have "those (map (\<lambda>(i, p). normalize_item ''gemini'' 0 p)
          (map (\<lambda>i. (i, generous_item x i)) [0..<101])) = Some (map ?r [0..<101])"
    by (simp add: those_eq_Some item comp_def)
  then have "normalize ''gemini'' (\<lambda>i. 0) (JArr (map (generous_item x) [0..<101]))
      = Some (map ?r [0..<101])"
    by (simp add: normalize_def enumerate_map_upt)
  then show ?thesis
    by (simp add: generateCategories_def gemini_only_def generous_io_def key_set_def
        provider_attempt_def)
qed

lemma insertMany_fresh:
  assumes "distinct (map categoryName ds)"
    and "set (map categoryName ds) \<inter> set (map (categoryName \<circ> snd) (docs c)) = {}"
    and "\<forall>d \<in> set ds. validator c d"
  shows "snd (insertMany ds c) = length ds \<and>
         set (map (categoryName \<circ> snd) (docs (fst (insertMany ds c)))) =
           set (map (categoryName \<circ> snd) (docs c)) \<union> set (map categoryName ds)"
  using assms
proof (induction ds arbitrary: c)
  case Nil
  then show ?case by simp
next
  case (Cons d ds)
  let ?c1 = "c\<lparr>docs := docs c @ [(next_id c, d)], next_id := Suc (next_id c)\<rparr>"
  have one: "insertOne d c = Inr (next_id c, ?c1)"
    using Cons.prems by (auto simp: insertOne_def write_error_def)
  have "snd (insertMany ds ?c1) = length ds \<and>
      set (map (categoryName \<circ> snd) (docs (fst (insertMany ds ?c1)))) =
        set (map (categoryName \<circ> snd) (docs ?c1)) \<union> set (map categoryName ds)"
    using Cons.prems by (intro Cons.IH) auto
  then show ?case
    using one by (cases "insertMany ds ?c1") auto
qed

lemma big_store_facts:
  "countDocuments big_store = 1001" "unique_index big_store"
  "validator big_store d" "latest_createdAt big_store = Some 0"
  "distinct (map fst (docs big_store))"
  "set (map (categoryName \<circ> snd) (docs big_store)) \<subseteq> range (\<lambda>i. JStr (replicate (Suc i) CHR ''o''))"
proof -
  show "countDocuments big_store = 1001" "unique_index big_store" "validator big_store d"
    by (simp_all add: countDocuments_def big_store_def)
  have "docs big_store \<noteq> []"
    by (simp add: big_store_def)
  from latest_createdAt_in_docs [OF this]
  show "latest_createdAt big_store = Some 0"
    by (auto simp: big_store_def old_doc_def)
  show "distinct (map fst (docs big_store))"
    by (simp add: big_store_def comp_def)
  show "set (map (categoryName \<circ> snd) (docs big_store)) \<subseteq> range (\<lambda>i. JStr (replicate (Suc i) CHR ''o''))"
    by (auto simp: big_store_def old_doc_def)
qed

theorem two_batches_counterexample:
  "1000 < countDocuments big_store \<and> latest_createdAt big_store = Some 0 \<and>
   oneDayMs \<le> two_days - 0 \<and>
   inserted (snd (ensure_fresh gemini_only (\<lambda>k. 0) (generous_io CHR ''x'') (generous_io CHR ''y'')
                    two_days big_store)) = 202"
proof -
  let ?name = "\<lambda>x i. JStr (replicate (Suc i) x)"
  let ?b = "\<lambda>x. fst (generateCategories gemini_only (generous_io x) 100)"
  let ?ids = "map fst (sample (\<lambda>k. 0) 0 100 (docs big_store))"
  let ?ca = "if ?ids \<noteq> [] then deleteMany ?ids big_store else big_store"
  let ?names = "\<lambda>c. set (map (categoryName \<circ> snd) (docs c))"
  have stale: "oneDayMs \<le> two_days - 0"
    by (simp add: two_days_def oneDayMs_def)
  have batch_names: "map categoryName (?b x) = map (?name x) [0..<101]" for x
    by (simp add: generous_batch comp_def)
  have batch_distinct: "distinct (map categoryName (?b x))" for x
    unfolding batch_names by (simp add: distinct_map inj_on_def)
  have batch_length: "length (?b x) = 101" for x
    by (simp add: generous_batch)
  have ca_names: "?names ?ca \<subseteq> range (?name CHR ''o'')"
    using big_store_facts(6) by (auto simp: deleteMany_def)
  have ca_valid: "validator ?ca d" for d
    using big_store_facts(3) by (simp add: deleteMany_def)
  have batch_sub: "set (map categoryName (?b x)) \<subseteq> range (?name x)" for x
    unfolding batch_names by auto
  have apart: "range (?name a) \<inter> range (?name b) = {}" if "a \<noteq> b" for a b :: char
    using that by auto
  have "set (map categoryName (?b CHR ''x'')) \<inter> ?names ?ca = {}"
    using ca_names batch_sub [of "CHR ''x''"] apart [of "CHR ''x''" "CHR ''o''"] by blast
  then have first: "snd (insertMany (?b CHR ''x'') ?ca) = 101"
    and c1_names: "?names (fst (insertMany (?b CHR ''x'') ?ca)) =
      ?names ?ca \<union> set (map categoryName (?b CHR ''x''))"
    using insertMany_fresh [OF batch_distinct, of "CHR ''x''" ?ca] ca_valid batch_length
    by simp_all
  have c1_valid: "validator (fst (insertMany (?b CHR ''x'') ?ca)) d" for d
    using insertMany_effect [of "?b CHR ''x''" ?ca "fst (insertMany (?b CHR ''x'') ?ca)"
        "snd (insertMany (?b CHR ''x'') ?ca)"] ca_valid
    by simp
  have y_old: "set (map categoryName (?b CHR ''y'')) \<inter> ?names ?ca = {}"
    using ca_names batch_sub [of "CHR ''y''"] apart [of "CHR ''y''" "CHR ''o''"] by blast
  have y_x: "set (map categoryName (?b CHR ''y'')) \<inter> set (map categoryName (?b CHR ''x'')) = {}"
    using batch_sub [of "CHR ''x''"] batch_sub [of "CHR ''y''"] apart [of "CHR ''y''" "CHR ''x''"]
    by blast
  have "set (map categoryName (?b CHR ''y'')) \<inter> ?names (fst (insertMany (?b CHR ''x'') ?ca)) = {}"
    by (simp only: c1_names Int_Un_distrib y_old y_x Un_empty_left)
  then have second: "snd (insertMany (?b CHR ''y'') (fst (insertMany (?b CHR ''x'') ?ca))) = 101"
    using insertMany_fresh [OF batch_distinct, of "CHR ''y''" "fst (insertMany (?b CHR ''x'') ?ca)"]
      c1_valid batch_length
    by simp
  have "inserted (snd (ensure_fresh gemini_only (\<lambda>k. 0) (generous_io CHR ''x'')
            (generous_io CHR ''y'') two_days big_store))
      = snd (insertMany (?b CHR ''x'') ?ca) +
        snd (insertMany (?b CHR ''y'') (fst (insertMany (?b CHR ''x'') ?ca)))"
    using stale by (simp add: ensure_fresh_eq Let_def big_store_facts(1,4))
  then show ?thesis
    using first second stale by (simp add: big_store_facts(1,4))
qed

theorem capacity_and_freshness_from_snapshot_witness:
  "distinct (map fst (docs big_store)) \<and>
   \<not> key_set (GEMINI_API_KEY no_keys) \<and> \<not> key_set (MISTRAL_API_KEY no_keys) \<and>
   1000 < countDocuments big_store \<and>
   (\<exists>k1 k2.
      snd (ensure_fresh no_keys (\<lambda>k. 0) offline_io offline_io two_days big_store) =
        [Prune_delete (map fst (sample (\<lambda>k. 0) 0 100 (docs big_store))),
         Prune_insert (fst (generateCategories no_keys offline_io 100)) k1,
         Fresh_insert (fst (generateCategories no_keys offline_io 100)) k2] \<and>
      k1 \<le> 100 \<and> k2 \<le> 100) \<and>
   length (sample (\<lambda>k. 0) 0 100 (docs big_store)) = 100 \<and>
   countDocuments (fst (ensure_fresh no_keys (\<lambda>k. 0) offline_io offline_io two_days big_store)) =
     901 + inserted (snd (ensure_fresh no_keys (\<lambda>k. 0) offline_io offline_io two_days big_store)) \<and>
   inserted (snd (ensure_fresh no_keys (\<lambda>k. 0) offline_io offline_io two_days big_store)) \<le> 200"
proof -
  have h: "ensure_fresh no_keys (\<lambda>k. 0) offline_io offline_io two_days big_store =
      (fst (ensure_fresh no_keys (\<lambda>k. 0) offline_io offline_io two_days big_store),
       snd (ensure_fresh no_keys (\<lambda>k. 0) offline_io offline_io two_days big_store))"
    by simp
  have keys: "\<not> key_set (GEMINI_API_KEY no_keys)" "\<not> key_set (MISTRAL_API_KEY no_keys)"
    by (simp_all add: no_keys_def key_set_def)
  have stale: "oneDayMs \<le> two_days - 0"
    by (simp add: two_days_def oneDayMs_def)
  have len: "length (fst (generateCategories no_keys offline_io 100)) = 100"
    using keys by (rule fallback_batch_length)
  show ?thesis
    using capacity_and_freshness_from_snapshot [OF h] keys stale len big_store_facts(1,4,5)
    by auto
qed

lemma strings_of_length:
  "\<not> rejects name list \<Longrightarrow> 1 \<le> length (strings_of list) \<and> length (strings_of list) \<le> 20"
proof -
  assume ok: "\<not> rejects name list"
  have len: "length (concat (map (\<lambda>w. case w of JStr s \<Rightarrow> [s] | _ \<Rightarrow> []) xs)) = length xs"
    if "list_all (\<lambda>w. case w of JStr s \<Rightarrow> True | _ \<Rightarrow> False) xs" for xs
    using that by (induction xs) (auto split: js.splits)
  show ?thesis
  proof (cases list)
    case (JArr ws)
    with ok have "list_all (\<lambda>w. case w of JStr s \<Rightarrow> True | _ \<Rightarrow> False) ws"
      and "ws \<noteq> []" and "length ws \<le> 20"
      by (auto simp: rejects_def)
    then show ?thesis
      using JArr len [of ws] by (cases ws) (simp_all add: strings_of_def)
  qed (use ok in \<open>simp_all add: rejects_def\<close>)
qed

lemma deleteMany_docs: "set (docs (deleteMany ids c)) \<subseteq> set (docs c)"
  by (auto simp: deleteMany_def)

lemma insertMany_docs:
  "d \<in> set (docs (fst (insertMany ds c))) \<Longrightarrow> d \<in> set (docs c) \<or> snd d \<in> set ds"
  using insertMany_effect [of ds c "fst (insertMany ds c)" "snd (insertMany ds c)"]
  by (auto simp: image_subset_iff)

lemma ensure_fresh_docs:
  assumes "d \<in> set (docs (fst (ensure_fresh e srv io1 io2 now c)))"
  shows "d \<in> set (docs c) \<or> snd d \<in> set (fst (generateCategories e io1 100)) \<or>
         snd d \<in> set (fst (generateCategories e io2 100))"
proof -
  define ids where "ids = map fst (sample srv 0 100 (docs c))"
  define ca where "ca = (if ids \<noteq> [] then deleteMany ids c else c)"
  define c1 where "c1 = (if 1000 < countDocuments c
      then fst (insertMany (fst (generateCategories e io1 100)) ca) else c)"
  have ca: "set (docs ca) \<subseteq> set (docs c)"
    using deleteMany_docs [of ids c] by (simp add: ca_def)
  have c1: "x \<in> set (docs c1) \<Longrightarrow>
      x \<in> set (docs c) \<or> snd x \<in> set (fst (generateCategories e io1 100))" for x
    using insertMany_docs [of x "fst (generateCategories e io1 100)" ca] ca
    by (auto simp: c1_def split: if_splits)
  have "d \<in> set (docs c1) \<or> snd d \<in> set (fst (generateCategories e io2 100))"
    using assms insertMany_docs [of d "fst (generateCategories e io2 100)" c1]
    by (auto simp: ensure_fresh_eq Let_def c1_def ca_def ids_def split: if_splits)
  then show ?thesis
    using c1 [of d] by blast
qed

lemma generateCategories_tag:
  assumes "r \<in> set (fst (generateCategories e io n))"
  shows "ai r =
     Some (if key_set (GEMINI_API_KEY e) \<and>
              (\<exists>v b. gemini io = Parsed v \<and> normalize ''gemini'' (clock io) v = Some b)
           then ''gemini''
           else if key_set (MISTRAL_API_KEY e) \<and>
              (\<exists>v b. mistral io = Parsed v \<and> normalize ''mistral'' (clock io) v = Some b)
           then ''mistral''
           else ''No-ai-fallback'')"
proof -
  let ?g = "key_set (GEMINI_API_KEY e) \<and>
      (\<exists>v b. gemini io = Parsed v \<and> normalize ''gemini'' (clock io) v = Some b)"
  let ?m = "key_set (MISTRAL_API_KEY e) \<and>
      (\<exists>v b. mistral io = Parsed v \<and> normalize ''mistral'' (clock io) v = Some b)"
  have fails: "\<not> key_set k \<or> fst (provider_attempt tag w (clock io) rep) = None"
    if "\<not> (key_set k \<and> (\<exists>v b. rep = Parsed v \<and> normalize tag (clock io) v = Some b))"
    for k tag w rep
    using that by (cases rep) (auto simp: provider_attempt_def split: option.splits)
  show ?thesis
  proof (cases ?g)
    case True
    then obtain v b where "key_set (GEMINI_API_KEY e)" "gemini io = Parsed v"
      and b: "normalize ''gemini'' (clock io) v = Some b" by blast
    then have "fst (generateCategories e io n) = b"
      using generateCategories_gemini [of e io v b n] by simp
    then have "ai r = Some ''gemini''"
      using assms normalize_Some [OF b, of r] by simp
    then show ?thesis using True by simp
  next
    case no_gemini: False
    note g = fails [OF no_gemini, where w = "''Gemini generation failed:''"]
    show ?thesis
    proof (cases ?m)
      case True
      then obtain v b where "key_set (MISTRAL_API_KEY e)" "mistral io = Parsed v"
        and b: "normalize ''mistral'' (clock io) v = Some b" by blast
      then have "fst (generateCategories e io n) = b"
        using generateCategories_mistral [OF g, of v b n] by simp
      then have "ai r = Some ''mistral''"
        using assms normalize_Some [OF b, of r] by simp
      then show ?thesis using True no_gemini by simp
    next
      case False
      note m = fails [OF False, where w = "''Mistral generation failed:''"]
      have "fst (generateCategories e io n) = fallbackGenerate n (rand io) (clock io)"
        using g m by (rule generateCategories_fallback)
      then have "ai r = Some ''No-ai-fallback''"
        using assms fallbackGenerate_record [of r n "rand io" "clock io"] by simp
      then show ?thesis using False no_gemini by simp
    qed
  qed
qed

text \<open>
  Claim C10. A record that \<^verbatim>\<open>POST /categories\<close> adds has between 1 and 20 words,
  the time of the request as \<^verbatim>\<open>createdAt\<close>, and no source tag. A record that
  \<^verbatim>\<open>GET /categories\<close> adds has a string name and at most 20 words, and belongs to the
  batch of one of the request's two generations with the tag of the producer of that
  batch: \<^verbatim>\<open>gemini\<close> when Gemini's reply was returned, \<^verbatim>\<open>mistral\<close> when Gemini returned
  nothing and Mistral's reply was returned, \<^verbatim>\<open>No-ai-fallback\<close> otherwise.
\<close>

theorem written_records_shape:
  "(\<forall>r c'. post_categories (Some c) body now = (r, Some c') \<longrightarrow>
      (\<forall>d \<in> set (docs c') - set (docs c).
         1 \<le> length (words (snd d)) \<and> length (words (snd d)) \<le> 20 \<and>
         createdAt (snd d) = now \<and> ai (snd d) = None)) \<and>
   (\<forall>r c'. get_categories (Some c) q e srv io1 io2 now = (r, Some c') \<longrightarrow>
      (\<forall>d \<in> set (docs c') - set (docs c).
         length (words (snd d)) \<le> 20 \<and>
         (\<exists>name. categoryName (snd d) = JStr name) \<and>
         (\<exists>io. (io = io1 \<or> io = io2) \<and>
            snd d \<in> set (fst (generateCategories e io 100)) \<and>
            ai (snd d) =
              Some (if key_set (GEMINI_API_KEY e) \<and>
                       (\<exists>v b. gemini io = Parsed v \<and>
                              normalize ''gemini'' (clock io) v = Some b)
                    then ''gemini''
                    else if key_set (MISTRAL_API_KEY e) \<and>
                       (\<exists>v b. mistral io = Parsed v \<and>
                              normalize ''mistral'' (clock io) v = Some b)
                    then ''mistral''
                    else ''No-ai-fallback''))))"
proof -
  have post_part: "1 \<le> length (words (snd d)) \<and> length (words (snd d)) \<le> 20 \<and>
         createdAt (snd d) = now \<and> ai (snd d) = None"
    if post: "post_categories (Some c) body now = (r, Some c')"
      and d: "d \<in> set (docs c') - set (docs c)" for r c' d
  proof -
    let ?doc = "\<lparr>categoryName = own_prop body ''categoryName'',
                 words = strings_of (own_prop body ''words''), createdAt = now, ai = None\<rparr>"
    have changed: "c' \<noteq> c" using d by auto
    have ok: "\<not> rejects (own_prop body ''categoryName'') (own_prop body ''words'')"
      using post changed by (auto simp: post_categories_eq split: if_splits sum.splits)
    have "\<exists>i. insertOne ?doc c = Inr (i, c')"
      using post changed ok by (auto simp: post_categories_eq split: if_splits sum.splits)
    then obtain i where "docs c' = docs c @ [(i, ?doc)]"
      using insertOne_Inr [of ?doc c _ c'] by auto
    then have "snd d = ?doc" using d by auto
    then show ?thesis
      using strings_of_length [OF ok] by simp
  qed
  have get_part: "length (words (snd d)) \<le> 20 \<and>
         (\<exists>name. categoryName (snd d) = JStr name) \<and>
         (\<exists>io. (io = io1 \<or> io = io2) \<and>
            snd d \<in> set (fst (generateCategories e io 100)) \<and>
            ai (snd d) =
              Some (if key_set (GEMINI_API_KEY e) \<and>
                       (\<exists>v b. gemini io = Parsed v \<and>
                              normalize ''gemini'' (clock io) v = Some b)
                    then ''gemini''
                    else if key_set (MISTRAL_API_KEY e) \<and>
                       (\<exists>v b. mistral io = Parsed v \<and>
                              normalize ''mistral'' (clock io) v = Some b)
                    then ''mistral''
                    else ''No-ai-fallback''))"
    if get: "get_categories (Some c) q e srv io1 io2 now = (r, Some c')"
      and d: "d \<in> set (docs c') - set (docs c)" for r c' d
  proof -
    from get have "c' = fst (ensure_fresh e srv io1 io2 now c)"
      by (auto simp: get_categories_def Let_def split: prod.splits)
    then have "snd d \<in> set (fst (generateCategories e io1 100)) \<or>
        snd d \<in> set (fst (generateCategories e io2 100))"
      using d ensure_fresh_docs [of d e srv io1 io2 now c] by auto
    then obtain io where io: "io = io1 \<or> io = io2"
      and mem: "snd d \<in> set (fst (generateCategories e io 100))" by blast
    show ?thesis
      using io mem generateCategories_record [OF mem] generateCategories_tag [OF mem]
      by (intro conjI exI [of _ io]) simp_all
  qed
  show ?thesis
    using post_part get_part by blast
qed

theorem post_record_untagged_counterexample:
  "post_categories (Some empty_store) request_a 5 =
     (Status201 0,
      Some \<lparr>docs = [(0, \<lparr>categoryName = JStr ''a'', words = [''w''], createdAt = 5, ai = None\<rparr>)],
            unique_index = True, validator = (\<lambda>d. True), next_id = 1\<rparr>) \<and>
   ai \<lparr>categoryName = JStr ''a'', words = [''w''], createdAt = 5, ai = None\<rparr> = None"
  by (simp add: post_categories_eq rejects_def strings_of_def own_prop_def insertOne_def
      write_error_def empty_store_def request_a_def)

theorem written_records_shape_witness:
  "post_categories (Some empty_store) request_a 5 =
     (Status201 0,
      Some \<lparr>docs = [(0, \<lparr>categoryName = JStr ''a'', words = [''w''], createdAt = 5, ai = None\<rparr>)],
            unique_index = True, validator = (\<lambda>d. True), next_id = 1\<rparr>) \<and>
   snd (get_categories (Some empty_store) None both_keys (\<lambda>k. 0) gemini_fruits_io gemini_fruits_io 5) =
     Some \<lparr>docs = [(0, fruits ''gemini'')], unique_index = True, validator = (\<lambda>d. True),
           next_id = 1\<rparr> \<and>
   list_all (\<lambda>d. length (words (snd d)) \<le> 20 \<and> ai (snd d) = Some ''gemini'')
     [(0, fruits ''gemini'')] \<and>
   snd (get_categories (Some empty_store) None both_keys (\<lambda>k. 0) mistral_fruits_io mistral_fruits_io 5) =
     Some \<lparr>docs = [(0, fruits ''mistral'')], unique_index = True, validator = (\<lambda>d. True),
           next_id = 1\<rparr> \<and>
   list_all (\<lambda>d. length (words (snd d)) \<le> 20 \<and> ai (snd d) = Some ''mistral'')
     [(0, fruits ''mistral'')] \<and>
   snd (get_categories (Some empty_store) None no_keys (\<lambda>k. 0) offline_io offline_io 5) =
     Some (fst (ensure_fresh no_keys (\<lambda>k. 0) offline_io offline_io 5 empty_store)) \<and>
   list_all (\<lambda>d. length (words (snd d)) \<le> 20 \<and> ai (snd d) = Some ''No-ai-fallback'')
     (docs (fst (ensure_fresh no_keys (\<lambda>k. 0) offline_io offline_io 5 empty_store)))"
proof -
  let ?stored = "\<lambda>tag. \<lparr>docs = [(0, fruits tag)], unique_index = True, validator = (\<lambda>d. True),
                        next_id = 1\<rparr>"
  have post: "post_categories (Some empty_store) request_a 5 =
     (Status201 0,
      Some \<lparr>docs = [(0, \<lparr>categoryName = JStr ''a'', words = [''w''], createdAt = 5, ai = None\<rparr>)],
            unique_index = True, validator = (\<lambda>d. True), next_id = 1\<rparr>)"
    by (simp add: post_categories_eq rejects_def strings_of_def own_prop_def insertOne_def
        write_error_def empty_store_def request_a_def)
  have empty: "set (docs empty_store) = {}" "countDocuments empty_store = 0"
    "latest_createdAt empty_store = None"
    by (simp_all add: empty_store_def countDocuments_def latest_createdAt_def find_recent_def)
  have get: "snd (get_categories (Some empty_store) None e (\<lambda>k. 0) io io 5) =
      Some (fst (insertMany (fst (generateCategories e io 100)) empty_store))" for e io
    by (simp add: get_categories_def ensure_fresh_eq Let_def empty split: prod.splits)
  have gemini_returns: "key_set (GEMINI_API_KEY both_keys)"
    "gemini gemini_fruits_io = Parsed (JArr [fruits_item])"
    "normalize ''gemini'' (clock gemini_fruits_io) (JArr [fruits_item]) = Some [fruits ''gemini'']"
    by (simp_all add: both_keys_def key_set_def gemini_fruits_io_def normalize_def
        normalize_item_def own_prop_def fruits_item_def fruits_def)
  have mistral_returns: "gemini mistral_fruits_io = Throws" "key_set (MISTRAL_API_KEY both_keys)"
    "mistral mistral_fruits_io = Parsed (JArr [fruits_item])"
    "normalize ''mistral'' (clock mistral_fruits_io) (JArr [fruits_item]) = Some [fruits ''mistral'']"
    by (simp_all add: both_keys_def key_set_def mistral_fruits_io_def normalize_def
        normalize_item_def own_prop_def fruits_item_def fruits_def)
  have batch_g: "fst (generateCategories both_keys gemini_fruits_io 100) = [fruits ''gemini'']"
    using generateCategories_gemini [OF gemini_returns, of 100] by simp
  have batch_m: "fst (generateCategories both_keys mistral_fruits_io 100) = [fruits ''mistral'']"
    using mistral_returns
    by (intro generateCategories_mistral) (simp_all add: provider_attempt_def)
  have stored: "fst (insertMany [fruits tag] empty_store) = ?stored tag" for tag
    by (simp add: insertOne_def write_error_def empty_store_def)
  have get_g: "snd (get_categories (Some empty_store) None both_keys (\<lambda>k. 0)
      gemini_fruits_io gemini_fruits_io 5) = Some (?stored ''gemini'')"
    by (simp only: get batch_g stored)
  have get_m: "snd (get_categories (Some empty_store) None both_keys (\<lambda>k. 0)
      mistral_fruits_io mistral_fruits_io 5) = Some (?stored ''mistral'')"
    by (simp only: get batch_m stored)
  have get_f: "snd (get_categories (Some empty_store) None no_keys (\<lambda>k. 0) offline_io offline_io 5) =
      Some (fst (ensure_fresh no_keys (\<lambda>k. 0) offline_io offline_io 5 empty_store))"
    by (simp add: get_categories_def Let_def split: prod.splits)
  have tagged: "\<forall>d \<in> set (docs c'). length (words (snd d)) \<le> 20 \<and> ai (snd d) = Some tag"
    if "snd (get_categories (Some empty_store) None e (\<lambda>k. 0) io io 5) = Some c'"
      and "(if key_set (GEMINI_API_KEY e) \<and>
               (\<exists>v b. gemini io = Parsed v \<and> normalize ''gemini'' (clock io) v = Some b)
            then ''gemini''
            else if key_set (MISTRAL_API_KEY e) \<and>
               (\<exists>v b. mistral io = Parsed v \<and> normalize ''mistral'' (clock io) v = Some b)
            then ''mistral''
            else ''No-ai-fallback'') = tag" for e io c' tag
  proof -
    have eq: "get_categories (Some empty_store) None e (\<lambda>k. 0) io io 5 =
        (fst (get_categories (Some empty_store) None e (\<lambda>k. 0) io io 5), Some c')"
      using that(1) by (simp add: prod_eq_iff)
    note added = written_records_shape
      [of empty_store request_a 5 None e "\<lambda>k. 0" io io,
        THEN conjunct2, THEN spec, THEN spec, THEN mp, OF eq]
    show ?thesis
    proof
      fix d
      assume "d \<in> set (docs c')"
      then have "d \<in> set (docs c') - set (docs empty_store)"
        using empty(1) by simp
      from bspec [OF added this] show "length (words (snd d)) \<le> 20 \<and> ai (snd d) = Some tag"
        unfolding that(2) [symmetric] by (simp del: ex_simps)
    qed
  qed
  have tag_g: "\<forall>d \<in> set (docs (?stored ''gemini'')).
      length (words (snd d)) \<le> 20 \<and> ai (snd d) = Some ''gemini''"
    using gemini_returns by (intro tagged [OF get_g]) auto
  have tag_m: "\<forall>d \<in> set (docs (?stored ''mistral'')).
      length (words (snd d)) \<le> 20 \<and> ai (snd d) = Some ''mistral''"
    using mistral_returns by (intro tagged [OF get_m]) auto
  have tag_f: "\<forall>d \<in> set (docs (fst (ensure_fresh no_keys (\<lambda>k. 0) offline_io offline_io 5 empty_store))).
      length (words (snd d)) \<le> 20 \<and> ai (snd d) = Some ''No-ai-fallback''"
    by (intro tagged [OF get_f]) (simp add: no_keys_def key_set_def)
  show ?thesis
    using post get_g get_m get_f tag_g tag_m tag_f by (simp add: list_all_iff)
qed

end
